theory Spec2Isabelle
  imports Complex_Main "HOL-Library.AList"
begin

section \<open>Python values, exceptions and loops\<close>

text \<open>
  The program is \<^verbatim>\<open>videos.py\<close>: it reads a Hash Code 2017 instance
  (\<^verbatim>\<open>lire_instance\<close>), builds a 0/1 programme for the solver
  (\<^verbatim>\<open>build_model\<close>), solves it and writes the placement
  (\<^verbatim>\<open>resol_restit\<close>), sequenced by \<^verbatim>\<open>main\<close>.

  Python integers are unbounded, so they are \<^typ>\<open>int\<close>. Every exception
  the program can raise is a value of \<open>error\<close>; a function that may raise returns
  \<open>error + 'a\<close> with \<open>Inl\<close> the exception. The program defines no exception
  class of its own: every parse failure is Python's \<^verbatim>\<open>ValueError\<close>. The last three
  exceptions are raised by the solver library only.
\<close>

datatype error =
  ValueError | IndexError | KeyError | FileNotFoundError | GurobiError | OverflowError | TypeError

text \<open>
  A line of the input file is modelled after \<^verbatim>\<open>f.readline().split()\<close>: the list
  of its whitespace-separated fields. A field is recorded by what \<^verbatim>\<open>int(field)\<close>
  does with it: it returns an integer, or it raises \<^verbatim>\<open>ValueError\<close>.
\<close>

datatype token = IntTok int | BadTok

type_synonym line = "token list"

fun py_int :: "token \<Rightarrow> error + int" where
  "py_int (IntTok n) = Inr n"
| "py_int BadTok = Inl ValueError"

text \<open>\<^verbatim>\<open>list(map(int, fields))\<close>: the first field that is no integer raises.\<close>

fun map_int :: "line \<Rightarrow> error + int list" where
  "map_int [] = Inr []"
| "map_int (t # ts) =
     (case py_int t of
        Inl e \<Rightarrow> Inl e
      | Inr n \<Rightarrow> (case map_int ts of Inl e \<Rightarrow> Inl e | Inr ns \<Rightarrow> Inr (n # ns)))"

text \<open>
  \<^verbatim>\<open>f.readline().split()\<close> on the remaining lines of the file: at the end of the
  file \<^verbatim>\<open>readline\<close> returns the empty string, whose split is the empty list.
\<close>

fun readline :: "line list \<Rightarrow> line \<times> line list" where
  "readline [] = ([], [])"
| "readline (l # ls) = (l, ls)"

text \<open>
  \<^verbatim>\<open>for i in items: body\<close> over a state, where the body may raise: the first
  exception leaves the loop.
\<close>

fun for_loop :: "'i list \<Rightarrow> ('i \<Rightarrow> 's \<Rightarrow> error + 's) \<Rightarrow> 's \<Rightarrow> error + 's" where
  "for_loop [] body s = Inr s"
| "for_loop (i # rest) body s =
     (case body i s of Inl e \<Rightarrow> Inl e | Inr s' \<Rightarrow> for_loop rest body s')"

text \<open>\<^verbatim>\<open>range(n)\<close>: empty when \<open>n \<le> 0\<close>.\<close>

definition py_range :: "int \<Rightarrow> int list" where
  "py_range n = [0..n - 1]"

text \<open>
  \<^verbatim>\<open>xs[i]\<close> on a Python list: a negative index counts from the end, and an index
  outside \<open>[-len, len)\<close> raises \<^verbatim>\<open>IndexError\<close>.
\<close>

definition py_index :: "'a list \<Rightarrow> int \<Rightarrow> error + 'a" where
  "py_index xs i =
     (if 0 \<le> i \<and> i < int (length xs) then Inr (xs ! nat i)
      else if i < 0 \<and> - int (length xs) \<le> i then Inr (xs ! nat (int (length xs) + i))
      else Inl IndexError)"

section \<open>The instance reader\<close>

text \<open>
  \<^verbatim>\<open>endpoints[e] = {"ld": ..., "caches": {cache_id: latency}}\<close> and
  \<^verbatim>\<open>requests[r] = {"id": r, "video": v, "endpoint": e, "count": n}\<close>.
  The dictionary of caches is iterated later, in insertion order, so it is an association
  list; \<^const>\<open>AList.update\<close> is the dictionary store: an existing key keeps its place
  and takes the new value, a new key goes last.
\<close>

record endpoint_rec =
  ld :: int
  caches :: "(int \<times> int) list"

record request_rec =
  req_id :: int
  video :: int
  endpoint :: int
  count :: int

text \<open>
  \<^verbatim>\<open>c_id, latency = map(int, f.readline().split())\<close>: the unpacking converts the
  fields one by one and raises \<^verbatim>\<open>ValueError\<close> when there are fewer or more than
  two of them, as the conversion does for a field that is no integer.
\<close>

fun unpack2 :: "line \<Rightarrow> error + int \<times> int" where
  "unpack2 [a, b] =
     (case py_int a of
        Inl e \<Rightarrow> Inl e
      | Inr x \<Rightarrow> (case py_int b of Inl e \<Rightarrow> Inl e | Inr y \<Rightarrow> Inr (x, y)))"
| "unpack2 _ = Inl ValueError"

text \<open>The body of \<^verbatim>\<open>for _ in range(k)\<close>; the state is the dictionary and the lines left.\<close>

definition read_cache ::
  "int \<Rightarrow> (int \<times> int) list \<times> line list \<Rightarrow> error + (int \<times> int) list \<times> line list" where
  "read_cache i st =
     (case st of (cache_connections, f) \<Rightarrow>
        (case readline f of (l, f') \<Rightarrow>
           (case unpack2 l of
              Inl e \<Rightarrow> Inl e
            | Inr (c_id, latency) \<Rightarrow> Inr (AList.update c_id latency cache_connections, f'))))"

text \<open>The body of \<^verbatim>\<open>for e in range(E)\<close>.\<close>

definition read_endpoint ::
  "int \<Rightarrow> endpoint_rec list \<times> line list \<Rightarrow> error + endpoint_rec list \<times> line list" where
  "read_endpoint e st =
     (case st of (endpoints, f) \<Rightarrow>
        (case readline f of (ep_header, f1) \<Rightarrow>
           if length ep_header \<noteq> 2 then Inl ValueError
           else (case py_int (ep_header ! 0) of
              Inl err \<Rightarrow> Inl err
            | Inr ld_v \<Rightarrow>
               (case py_int (ep_header ! 1) of
                  Inl err \<Rightarrow> Inl err
                | Inr k \<Rightarrow>
                   (case for_loop (py_range k) read_cache ([], f1) of
                      Inl err \<Rightarrow> Inl err
                    | Inr (cache_connections, f2) \<Rightarrow>
                       Inr (endpoints @ [\<lparr>ld = ld_v, caches = cache_connections\<rparr>], f2))))))"

text \<open>The body of \<^verbatim>\<open>for r in range(R)\<close>.\<close>

definition read_request ::
  "int \<Rightarrow> request_rec list \<times> line list \<Rightarrow> error + request_rec list \<times> line list" where
  "read_request r st =
     (case st of (requests, f) \<Rightarrow>
        (case readline f of (l, f') \<Rightarrow>
           if length l \<noteq> 3 then Inl ValueError
           else (case map_int l of
              Inl err \<Rightarrow> Inl err
            | Inr ns \<Rightarrow>
               Inr (requests @
                      [\<lparr>req_id = r, video = ns ! 0, endpoint = ns ! 1, count = ns ! 2\<rparr>], f'))))"

type_synonym instance_data =
  "int \<times> int \<times> int \<times> int \<times> int \<times> int list \<times> endpoint_rec list \<times> request_rec list"

text \<open>
  \<^verbatim>\<open>lire_instance\<close> on the lines of the opened file; the result is the tuple
  \<^verbatim>\<open>V, E, R, C, X, video_sizes, endpoints, requests\<close>.
\<close>

definition lire_instance :: "line list \<Rightarrow> error + instance_data" where
  "lire_instance f =
     (case readline f of (header, f1) \<Rightarrow>
        if header = [] then Inl ValueError
        else if length header \<noteq> 5 then Inl ValueError
        else (case map_int header of
           Inl err \<Rightarrow> Inl err
         | Inr hs \<Rightarrow>
            (let V = hs ! 0; E = hs ! 1; R = hs ! 2; C = hs ! 3; X = hs ! 4 in
             (case readline f1 of (sizes_line, f2) \<Rightarrow>
                if int (length sizes_line) \<noteq> V then Inl ValueError
                else (case map_int sizes_line of
                   Inl err \<Rightarrow> Inl err
                 | Inr video_sizes \<Rightarrow>
                    (case for_loop (py_range E) read_endpoint ([], f2) of
                       Inl err \<Rightarrow> Inl err
                     | Inr (endpoints, f3) \<Rightarrow>
                        (case for_loop (py_range R) read_request ([], f3) of
                           Inl err \<Rightarrow> Inl err
                         | Inr (requests, f4) \<Rightarrow>
                            Inr (V, E, R, C, X, video_sizes, endpoints, requests))))))))"

section \<open>The model builder\<close>

text \<open>
  The solver library is outside the program. What the program hands to it is recorded:
  a \<open>gmodel\<close> is the list of variables and the list of constraints in the order of the
  calls \<^verbatim>\<open>model.addVar\<close> and \<^verbatim>\<open>model.addConstr\<close>, with the two parameters
  and the sense that the program sets. A variable handle is the position of the variable in
  that list. The name \<^verbatim>\<open>f"x_{vid}_{cid}"\<close> is kept as the constructor with its two
  numbers, and so for the other names. The numbers are recorded as the program passes
  them, as Python integers; what the library makes of them is the library's.
\<close>

datatype vtype = BINARY

datatype var_name = X_name int int | Y_name int int

datatype constr_name = Link_name int int | Assign_name int | Cap_name int

record var_rec =
  v_name :: var_name
  v_type :: vtype
  v_obj :: int

text \<open>A linear expression is its list of terms (coefficient, variable), in the order added.\<close>

type_synonym linexpr = "(int \<times> nat) list"

datatype rhs = RhsVar nat | RhsConst int

text \<open>A constraint \<open>c_lhs \<le> c_rhs\<close>.\<close>

record constr_rec =
  c_name :: constr_name
  c_lhs :: linexpr
  c_rhs :: rhs

record gmodel =
  m_vars :: "var_rec list"
  m_constrs :: "constr_rec list"
  m_sense :: int
  LogToConsole :: int
  MIPGap :: rat

text \<open>\<^verbatim>\<open>GRB.MAXIMIZE\<close> is \<open>-1\<close>; a new model minimizes (\<open>1\<close>).\<close>

definition MAXIMIZE :: int where
  "MAXIMIZE = - 1"

text \<open>
  Every call into the library may raise: the creation of the environment raises
  \<^verbatim>\<open>GurobiError\<close> without a licence, a coefficient beyond the floating-point range
  raises \<^verbatim>\<open>OverflowError\<close> or \<^verbatim>\<open>TypeError\<close>, and the program cannot tell
  beforehand. So the behaviour of the library is a parameter of the model: a \<open>library\<close>
  says whether \<^verbatim>\<open>gp.Env()\<close> raises, whether \<^verbatim>\<open>gp.Model(...)\<close> raises, and for
  every later call of \<^verbatim>\<open>build_model\<close>, given the model as built so far and the call
  with its arguments, whether it raises and what. The calls are those of the source:
  setting a parameter, \<^verbatim>\<open>gp.LinExpr()\<close>, \<^verbatim>\<open>model.addVar\<close>,
  \<^verbatim>\<open>expr.add(var, coefficient)\<close>, \<^verbatim>\<open>gp.quicksum\<close>, \<^verbatim>\<open>expr.size()\<close>, the
  comparison that builds a constraint together with \<^verbatim>\<open>model.addConstr\<close>, setting the
  sense, \<^verbatim>\<open>model.update()\<close> and \<^verbatim>\<open>model.write\<close>.
\<close>

datatype lib_call =
    SetParam string
  | NewLinExpr
  | AddVar var_rec
  | AddTerm linexpr nat int
  | Quicksum "nat list"
  | ExprSize linexpr
  | AddConstr constr_rec
  | SetSense int
  | Update
  | Write string

record library =
  env_raises :: "error option"
  model_raises :: "error option"
  call_raises :: "gmodel \<Rightarrow> lib_call \<Rightarrow> error option"

text \<open>A library none of whose calls raises.\<close>

definition quiet :: library where
  "quiet = \<lparr>env_raises = None, model_raises = None, call_raises = (\<lambda>m c. None)\<rparr>"

text \<open>A call into the library on model \<open>m\<close>, and what follows it when it does not raise.\<close>

definition calling :: "library \<Rightarrow> gmodel \<Rightarrow> lib_call \<Rightarrow> error + 'a \<Rightarrow> error + 'a" where
  "calling lib m c k = (case call_raises lib m c of Some e \<Rightarrow> Inl e | None \<Rightarrow> k)"

definition addVar :: "library \<Rightarrow> var_rec \<Rightarrow> gmodel \<Rightarrow> error + nat \<times> gmodel" where
  "addVar lib v m =
     calling lib m (AddVar v) (Inr (length (m_vars m), m\<lparr>m_vars := m_vars m @ [v]\<rparr>))"

definition addConstr :: "library \<Rightarrow> constr_rec \<Rightarrow> gmodel \<Rightarrow> error + gmodel" where
  "addConstr lib c m = calling lib m (AddConstr c) (Inr (m\<lparr>m_constrs := m_constrs m @ [c]\<rparr>))"

text \<open>
  The locals of \<^verbatim>\<open>build_model\<close> that the loops update: the model, the dictionary
  \<^verbatim>\<open>x\<close> from (video, cache) to the variable (in insertion order, which
  \<^verbatim>\<open>resol_restit\<close> iterates), and the dictionary \<^verbatim>\<open>capacity\<close> from a cache to
  its linear expression.
\<close>

record bstate =
  b_model :: gmodel
  b_x :: "((int \<times> int) \<times> nat) list"
  b_capacity :: "int \<rightharpoonup> linexpr"

text \<open>
  Lines 116 to 121, \<^verbatim>\<open>if (vid, cid) not in x: ...\<close>. The variable is stored in
  \<^verbatim>\<open>x\<close> first; then \<^verbatim>\<open>capacity[cid]\<close> is looked up (a cache outside
  \<^verbatim>\<open>range(C)\<close> raises \<^verbatim>\<open>KeyError\<close>), then \<^verbatim>\<open>video_sizes[vid]\<close>
  (\<^verbatim>\<open>IndexError\<close>), and the term is appended to the expression.
\<close>

definition ensure_x :: "library \<Rightarrow> int \<Rightarrow> int \<Rightarrow> int list \<Rightarrow> bstate \<Rightarrow> error + bstate" where
  "ensure_x lib vid cid video_sizes b =
     (if map_of (b_x b) (vid, cid) \<noteq> None then Inr b
      else
        (case addVar lib \<lparr>v_name = X_name vid cid, v_type = BINARY, v_obj = 0\<rparr> (b_model b) of
           Inl e \<Rightarrow> Inl e
         | Inr (xv, m1) \<Rightarrow>
            (let b1 = b\<lparr>b_model := m1, b_x := b_x b @ [((vid, cid), xv)]\<rparr> in
             (case b_capacity b1 cid of
                None \<Rightarrow> Inl KeyError
              | Some acc \<Rightarrow>
                 (case py_index video_sizes vid of
                    Inl e \<Rightarrow> Inl e
                  | Inr sz \<Rightarrow>
                     calling lib m1 (AddTerm acc xv sz)
                       (Inr (b1\<lparr>b_capacity :=
                                 (b_capacity b1)(cid \<mapsto> acc @ [(sz, xv)])\<rparr>)))))))"

text \<open>
  The body of \<^verbatim>\<open>for cid, lc in endpoints[eid]["caches"].items()\<close>; the state is the
  builder state and \<^verbatim>\<open>y_vars_for_request\<close>.
\<close>

definition cache_body ::
  "library \<Rightarrow> request_rec \<Rightarrow> int \<Rightarrow> int list \<Rightarrow> int \<times> int \<Rightarrow> bstate \<times> nat list
     \<Rightarrow> error + bstate \<times> nat list" where
  "cache_body lib request ld_e video_sizes item st =
     (case item of (cid, lc) \<Rightarrow>
      (case st of (b, y_vars_for_request) \<Rightarrow>
        if lc \<ge> ld_e then Inr (b, y_vars_for_request)
        else
          (let saving = (ld_e - lc) * count request in
           (case ensure_x lib (video request) cid video_sizes b of
              Inl e \<Rightarrow> Inl e
            | Inr b1 \<Rightarrow>
               (case addVar lib \<lparr>v_name = Y_name (req_id request) cid, v_type = BINARY,
                                  v_obj = saving\<rparr> (b_model b1) of
                  Inl e \<Rightarrow> Inl e
                | Inr (y_rc, m2) \<Rightarrow>
                    (case map_of (b_x b1) (video request, cid) of
                       None \<Rightarrow> Inl KeyError
                     | Some xv \<Rightarrow>
                        (case addConstr lib \<lparr>c_name = Link_name (req_id request) cid,
                                              c_lhs = [(1, y_rc)], c_rhs = RhsVar xv\<rparr> m2 of
                           Inl e \<Rightarrow> Inl e
                         | Inr m3 \<Rightarrow>
                            Inr (b1\<lparr>b_model := m3\<rparr>, y_vars_for_request @ [y_rc]))))))))"

text \<open>\<^verbatim>\<open>gp.quicksum(vars)\<close>: every variable with coefficient 1.\<close>

definition quicksum :: "nat list \<Rightarrow> linexpr" where
  "quicksum ys = map (\<lambda>y. (1, y)) ys"

text \<open>The body of \<^verbatim>\<open>for request in requests\<close>.\<close>

definition request_body ::
  "library \<Rightarrow> int list \<Rightarrow> endpoint_rec list \<Rightarrow> request_rec \<Rightarrow> bstate \<Rightarrow> error + bstate" where
  "request_body lib video_sizes endpoints request b =
     (case py_index endpoints (endpoint request) of
        Inl e \<Rightarrow> Inl e
      | Inr ep \<Rightarrow>
         (case for_loop (caches ep) (cache_body lib request (ld ep) video_sizes) (b, []) of
            Inl e \<Rightarrow> Inl e
          | Inr (b1, y_vars_for_request) \<Rightarrow>
             if y_vars_for_request \<noteq> [] then
               calling lib (b_model b1) (Quicksum y_vars_for_request)
                 (case addConstr lib \<lparr>c_name = Assign_name (req_id request),
                                       c_lhs = quicksum y_vars_for_request,
                                       c_rhs = RhsConst 1\<rparr> (b_model b1) of
                    Inl e \<Rightarrow> Inl e
                  | Inr m \<Rightarrow> Inr (b1\<lparr>b_model := m\<rparr>))
             else Inr b1))"

text \<open>The body of the last loop, \<^verbatim>\<open>for c in range(C)\<close>.\<close>

definition cap_body :: "library \<Rightarrow> int \<Rightarrow> int \<Rightarrow> bstate \<Rightarrow> error + bstate" where
  "cap_body lib X c b =
     (case b_capacity b c of
        None \<Rightarrow> Inl KeyError
      | Some acc \<Rightarrow>
         calling lib (b_model b) (ExprSize acc)
           (if length acc > 0 then
              (case addConstr lib \<lparr>c_name = Cap_name c, c_lhs = acc, c_rhs = RhsConst X\<rparr>
                      (b_model b) of
                 Inl e \<Rightarrow> Inl e
               | Inr m \<Rightarrow> Inr (b\<lparr>b_model := m\<rparr>))
            else Inr b))"

text \<open>
  A model as \<^verbatim>\<open>gp.Model\<close> creates it, with the library's default parameters, and the
  model after lines 89 and 90 have set \<^verbatim>\<open>LogToConsole\<close> and \<^verbatim>\<open>MIPGap\<close>.
\<close>

definition created_model :: gmodel where
  "created_model =
     \<lparr>m_vars = [], m_constrs = [], m_sense = 1, LogToConsole = 1, MIPGap = 1 / 10000\<rparr>"

definition new_model :: gmodel where
  "new_model = created_model\<lparr>LogToConsole := 1, MIPGap := 5 / 1000\<rparr>"

definition set_params :: "library \<Rightarrow> error + gmodel" where
  "set_params lib =
     calling lib created_model (SetParam ''LogToConsole'')
       (calling lib (created_model\<lparr>LogToConsole := 1\<rparr>) (SetParam ''MIPGap'') (Inr new_model))"

text \<open>
  The state before the first loop: the model with its parameters, the empty
  \<^verbatim>\<open>x\<close>, and \<^verbatim>\<open>{c: gp.LinExpr() for c in range(C)}\<close>, which calls the library once for
  each cache.
\<close>

definition new_linexpr ::
  "library \<Rightarrow> int \<Rightarrow> (int \<rightharpoonup> linexpr) \<Rightarrow> error + (int \<rightharpoonup> linexpr)" where
  "new_linexpr lib c capacity = calling lib new_model NewLinExpr (Inr (capacity(c \<mapsto> [])))"

definition init_bstate :: "library \<Rightarrow> int \<Rightarrow> error + bstate" where
  "init_bstate lib C =
     (case for_loop (py_range C) (new_linexpr lib) Map.empty of
        Inl e \<Rightarrow> Inl e
      | Inr capacity \<Rightarrow> Inr \<lparr>b_model = new_model, b_x = [], b_capacity = capacity\<rparr>)"

text \<open>
  Lines 96 to 155 of \<^verbatim>\<open>build_model\<close>: the dictionary of expressions, both loops and
  the sense; everything between the setting of the parameters and
  \<^verbatim>\<open>model.update()\<close>.
\<close>

definition build_loops ::
  "library \<Rightarrow> int \<Rightarrow> int \<Rightarrow> int list \<Rightarrow> endpoint_rec list \<Rightarrow> request_rec list
     \<Rightarrow> error + bstate" where
  "build_loops lib C X video_sizes endpoints requests =
     (case init_bstate lib C of
        Inl e \<Rightarrow> Inl e
      | Inr b0 \<Rightarrow>
         (case for_loop requests (request_body lib video_sizes endpoints) b0 of
            Inl e \<Rightarrow> Inl e
          | Inr b1 \<Rightarrow>
             (case for_loop (py_range C) (cap_body lib X) b1 of
                Inl e \<Rightarrow> Inl e
              | Inr b2 \<Rightarrow>
                 calling lib (b_model b2) (SetSense MAXIMIZE)
                   (Inr (b2\<lparr>b_model := (b_model b2)\<lparr>m_sense := MAXIMIZE\<rparr>\<rparr>)))))"

section \<open>The world: files and solver resources\<close>

text \<open>
  What the program does to its surroundings: it reads one file, writes files, and holds a
  solver environment and a solver model, which it releases with \<^verbatim>\<open>dispose()\<close>.
  \<open>readable\<close> gives the lines of each file that can be opened for reading;
  \<open>written\<close> is the list of the files written so far, each with its whole content.
\<close>

datatype resource = Absent | Live | Disposed

datatype content = Text string | Mps gmodel

record world =
  readable :: "string \<rightharpoonup> line list"
  written :: "(string \<times> content) list"
  env_st :: resource
  model_st :: resource

text \<open>
  \<^verbatim>\<open>build_model\<close>. \<^verbatim>\<open>gp.Env()\<close> comes first: when it raises, nothing has been
  acquired. \<^verbatim>\<open>gp.Model(...)\<close> is next: when it raises, the environment is allocated
  and the model is not. Then come the two parameters, the loops, \<^verbatim>\<open>model.update()\<close>
  and \<^verbatim>\<open>model.write("videos.mps")\<close>. After the parameters the model is
  \<^const>\<open>new_model\<close>, from which the loops start. There is no handler: an exception leaves
  the function with the world as it is then. Printing is left out. The result is
  \<^verbatim>\<open>model, x\<close>; the environment is the one of the world.
\<close>

definition build_model ::
  "library \<Rightarrow> int \<Rightarrow> int \<Rightarrow> int \<Rightarrow> int \<Rightarrow> int \<Rightarrow> int list \<Rightarrow> endpoint_rec list
     \<Rightarrow> request_rec list \<Rightarrow> world
     \<Rightarrow> (error + gmodel \<times> ((int \<times> int) \<times> nat) list) \<times> world" where
  "build_model lib V E R C X video_sizes endpoints requests w =
     (case env_raises lib of
        Some e \<Rightarrow> (Inl e, w)
      | None \<Rightarrow>
         (let w0 = w\<lparr>env_st := Live\<rparr> in
          (case model_raises lib of
             Some e \<Rightarrow> (Inl e, w0)
           | None \<Rightarrow>
              (let w1 = w0\<lparr>model_st := Live\<rparr> in
               (case set_params lib of
                  Inl e \<Rightarrow> (Inl e, w1)
                | Inr m0 \<Rightarrow>
                   (case build_loops lib C X video_sizes endpoints requests of
                      Inl e \<Rightarrow> (Inl e, w1)
                    | Inr b \<Rightarrow>
                       (case call_raises lib (b_model b) Update of
                          Some e \<Rightarrow> (Inl e, w1)
                        | None \<Rightarrow>
                           (case call_raises lib (b_model b) (Write ''videos.mps'') of
                              Some e \<Rightarrow> (Inl e, w1)
                            | None \<Rightarrow>
                               (Inr (b_model b, b_x b),
                                w1\<lparr>written :=
                                     written w1 @ [(''videos.mps'', Mps (b_model b))]\<rparr>)))))))))"

section \<open>Solving and writing the placement\<close>

text \<open>
  \<^verbatim>\<open>model.optimize()\<close> is the solver's: it raises, or it ends with a number of
  solutions \<^verbatim>\<open>SolCount\<close> and a value \<^verbatim>\<open>var.X\<close> for every variable. The values are
  floating-point numbers that the program only compares with \<open>0.5\<close>; the comparison is
  exact, so a value is modelled by the rational number it denotes.
\<close>

datatype outcome = OptimizeError | Solved nat "nat \<Rightarrow> rat"

type_synonym solver = "gmodel \<Rightarrow> outcome"

text \<open>\<^verbatim>\<open>str(n)\<close> for an integer, in decimal.\<close>

function str_nat :: "nat \<Rightarrow> string" where
  "str_nat n =
     (if n < 10 then [''0123456789'' ! n]
      else str_nat (n div 10) @ [''0123456789'' ! (n mod 10)])"
  by pat_completeness auto
termination
  by (relation "measure (\<lambda>n. n)") auto

declare str_nat.simps [simp del]

definition str_int :: "int \<Rightarrow> string" where
  "str_int i = (if i < 0 then ''-'' @ str_nat (nat (- i)) else str_nat (nat i))"

text \<open>\<^verbatim>\<open>" ".join(parts)\<close>.\<close>

fun join_space :: "string list \<Rightarrow> string" where
  "join_space [] = []"
| "join_space [s] = s"
| "join_space (s # t # rest) = s @ '' '' @ join_space (t # rest)"

text \<open>
  The body of \<^verbatim>\<open>for (vid, cid), var in x.items()\<close>: \<^verbatim>\<open>cache_content[cid]\<close>
  raises \<^verbatim>\<open>KeyError\<close> for a cache outside \<^verbatim>\<open>range(C)\<close>.
\<close>

definition extract_body ::
  "(nat \<Rightarrow> rat) \<Rightarrow> (int \<times> int) \<times> nat \<Rightarrow> (int \<times> int list) list
     \<Rightarrow> error + (int \<times> int list) list" where
  "extract_body xval item cache_content =
     (case item of ((vid, cid), var) \<Rightarrow>
        if xval var > 1 / 2 then
          (case map_of cache_content cid of
             None \<Rightarrow> Inl KeyError
           | Some vlist \<Rightarrow> Inr (AList.update cid (vlist @ [vid]) cache_content))
        else Inr cache_content)"

text \<open>
  \<^verbatim>\<open>{c: sorted(vlist) for c, vlist in cache_content.items() if vlist}\<close>.
\<close>

definition used_caches_of :: "(int \<times> int list) list \<Rightarrow> (int \<times> int list) list" where
  "used_caches_of cache_content =
     map (\<lambda>(c, vlist). (c, sort vlist)) (filter (\<lambda>(c, vlist). vlist \<noteq> []) cache_content)"

definition cache_line :: "int \<Rightarrow> int list \<Rightarrow> string" where
  "cache_line cid vs = str_int cid @ '' '' @ join_space (map str_int vs) @ [CHR 0x0A]"

text \<open>
  The loop that writes one line per used cache; the state is the text written so far, and
  it is returned with the exception when \<^verbatim>\<open>used_caches[cid]\<close> raises.
\<close>

fun write_caches ::
  "(int \<times> int list) list \<Rightarrow> int list \<Rightarrow> string \<Rightarrow> error option \<times> string" where
  "write_caches used_caches [] out = (None, out)"
| "write_caches used_caches (cid # rest) out =
     (case map_of used_caches cid of
        None \<Rightarrow> (Some KeyError, out)
      | Some vs \<Rightarrow> write_caches used_caches rest (out @ cache_line cid vs))"

text \<open>
  \<^verbatim>\<open>resol_restit\<close>. Printing is not modelled, nor the reading of the gap and the
  objective value that is only printed.
\<close>

definition resol_restit ::
  "solver \<Rightarrow> gmodel \<Rightarrow> ((int \<times> int) \<times> nat) list \<Rightarrow> int \<Rightarrow> string \<Rightarrow> world
     \<Rightarrow> (error + unit) \<times> world" where
  "resol_restit optimize model x C output_path w =
     (case optimize model of
        OptimizeError \<Rightarrow> (Inl GurobiError, w)
      | Solved SolCount xval \<Rightarrow>
         if SolCount = 0 then (Inr (), w\<lparr>model_st := Disposed, env_st := Disposed\<rparr>)
         else
           (case for_loop x (extract_body xval) (map (\<lambda>c. (c, [])) (py_range C)) of
              Inl e \<Rightarrow> (Inl e, w)
            | Inr cache_content \<Rightarrow>
               (let used_caches = used_caches_of cache_content in
                (case write_caches used_caches (sort (map fst used_caches))
                        (str_int (int (length used_caches)) @ [CHR 0x0A]) of
                   (Some e, out) \<Rightarrow>
                     (Inl e, w\<lparr>written := written w @ [(output_path, Text out)]\<rparr>)
                 | (None, out) \<Rightarrow>
                     (Inr (), w\<lparr>written := written w @ [(output_path, Text out)],
                                model_st := Disposed, env_st := Disposed\<rparr>)))))"

section \<open>The pipeline\<close>

text \<open>
  \<^verbatim>\<open>main(argv)\<close>: the result is the returned exit code, or the exception that
  leaves \<^verbatim>\<open>main\<close>. Opening a file that does not exist raises
  \<^verbatim>\<open>FileNotFoundError\<close>. The behaviour of the library in \<^verbatim>\<open>build_model\<close> and
  that of \<^verbatim>\<open>model.optimize()\<close> are the two parameters.
\<close>

definition main ::
  "library \<Rightarrow> solver \<Rightarrow> string list \<Rightarrow> world \<Rightarrow> (error + int) \<times> world" where
  "main lib optimize argv w =
     (if length argv \<noteq> 2 then (Inr 1, w)
      else
        (let input_path = argv ! 1 in
         (case readable w input_path of
            None \<Rightarrow> (Inl FileNotFoundError, w)
          | Some f \<Rightarrow>
             (case lire_instance f of
                Inl e \<Rightarrow> (Inl e, w)
              | Inr (V, E, R, C, X, video_sizes, endpoints, requests) \<Rightarrow>
                 (case build_model lib V E R C X video_sizes endpoints requests w of
                    (Inl e, w1) \<Rightarrow> (Inl e, w1)
                  | (Inr (model, x), w1) \<Rightarrow>
                     (case resol_restit optimize model x C ''videos.out'' w1 of
                        (Inl e, w2) \<Rightarrow> (Inl e, w2)
                      | (Inr u, w2) \<Rightarrow> (Inr 0, w2)))))))"

section \<open>The input format, as the specification describes it\<close>

text \<open>
  These definitions follow the specification's description of the input file, not the
  reader: a header \<open>V E R C X\<close>, a line of sizes, the endpoint blocks (a line
  \<open>ld k\<close> followed by the lines \<open>c lat\<close> of the connections), and the request lines
  \<open>video endpoint count\<close>. Every field is an integer.
\<close>

type_synonym block = "int \<times> int \<times> (int \<times> int) list"

definition connection_line :: "int \<times> int \<Rightarrow> line" where
  "connection_line p = [IntTok (fst p), IntTok (snd p)]"

definition block_lines :: "block \<Rightarrow> line list" where
  "block_lines b =
     (case b of (ld_v, k, conns) \<Rightarrow> [IntTok ld_v, IntTok k] # map connection_line conns)"

definition request_line :: "int \<times> int \<times> int \<Rightarrow> line" where
  "request_line q = (case q of (v, e, n) \<Rightarrow> [IntTok v, IntTok e, IntTok n])"

definition instance_lines ::
  "int \<Rightarrow> int \<Rightarrow> int \<Rightarrow> int \<Rightarrow> int \<Rightarrow> int list \<Rightarrow> block list \<Rightarrow> (int \<times> int \<times> int) list
     \<Rightarrow> line list" where
  "instance_lines V E R C X sizes blocks reqs =
     [IntTok V, IntTok E, IntTok R, IntTok C, IntTok X] # map IntTok sizes #
       concat (map block_lines blocks) @ map request_line reqs"

text \<open>
  The counts match what the header declares: \<open>V\<close> sizes, \<open>E\<close> blocks, \<open>R\<close> request lines,
  and in each block as many connection lines as its \<open>k\<close>. A declared count that is negative
  is matched by no item at all, as \<^verbatim>\<open>range\<close> of a negative number is empty.
\<close>

definition block_ok :: "block \<Rightarrow> bool" where
  "block_ok b = (case b of (ld_v, k, conns) \<Rightarrow> length conns = nat k)"

definition well_formed ::
  "int \<Rightarrow> int \<Rightarrow> int \<Rightarrow> int list \<Rightarrow> block list \<Rightarrow> (int \<times> int \<times> int) list \<Rightarrow> bool" where
  "well_formed V E R sizes blocks reqs \<longleftrightarrow>
     int (length sizes) = V \<and> length blocks = nat E \<and> list_all block_ok blocks \<and>
     length reqs = nat R"

text \<open>The data that such a file describes.\<close>

definition block_endpoint :: "block \<Rightarrow> endpoint_rec" where
  "block_endpoint b =
     (case b of (ld_v, k, conns) \<Rightarrow>
        \<lparr>ld = ld_v, caches = foldl (\<lambda>cc p. AList.update (fst p) (snd p) cc) [] conns\<rparr>)"

definition numbered_request :: "nat \<times> int \<times> int \<times> int \<Rightarrow> request_rec" where
  "numbered_request q =
     (case q of (r, v, e, n) \<Rightarrow> \<lparr>req_id = int r, video = v, endpoint = e, count = n\<rparr>)"

definition numbered_requests :: "(int \<times> int \<times> int) list \<Rightarrow> request_rec list" where
  "numbered_requests reqs = map numbered_request (enumerate 0 reqs)"



section \<open>The formulation, as the specification describes it\<close>

text \<open>
  The definitions of this section follow the specification's words; the theorems compare
  them with what \<^const>\<open>build_loops\<close> builds. A placement variable is an \<open>x\<close> variable, a
  serving variable a \<open>y\<close> variable.
\<close>

definition is_placement :: "var_rec \<Rightarrow> bool" where
  "is_placement v = (case v_name v of X_name vid cid \<Rightarrow> True | Y_name r cid \<Rightarrow> False)"

definition is_serving :: "var_rec \<Rightarrow> bool" where
  "is_serving v = (case v_name v of X_name vid cid \<Rightarrow> False | Y_name r cid \<Rightarrow> True)"

definition is_link :: "constr_name \<Rightarrow> bool" where
  "is_link n = (case n of Link_name r cid \<Rightarrow> True | _ \<Rightarrow> False)"

definition is_assign :: "constr_name \<Rightarrow> bool" where
  "is_assign n = (case n of Assign_name r \<Rightarrow> True | _ \<Rightarrow> False)"

definition is_cap :: "constr_name \<Rightarrow> bool" where
  "is_cap n = (case n of Cap_name c \<Rightarrow> True | _ \<Rightarrow> False)"

text \<open>
  The endpoint that a request refers to (an endpoint without caches stands for a reference
  that \<^verbatim>\<open>endpoints[eid]\<close> rejects), and the size of a video.
\<close>

definition endpoint_of :: "endpoint_rec list \<Rightarrow> request_rec \<Rightarrow> endpoint_rec" where
  "endpoint_of endpoints r =
     (case py_index endpoints (endpoint r) of
        Inr ep \<Rightarrow> ep
      | Inl e \<Rightarrow> \<lparr>ld = 0, caches = []\<rparr>)"

definition size_of :: "int list \<Rightarrow> int \<Rightarrow> int" where
  "size_of video_sizes vid = (case py_index video_sizes vid of Inr sz \<Rightarrow> sz | Inl e \<Rightarrow> 0)"

text \<open>The eligibility rule: the reachable caches that are strictly faster than the origin.\<close>

definition eligible :: "endpoint_rec \<Rightarrow> (int \<times> int) list" where
  "eligible ep = filter (\<lambda>(cid, lc). lc < ld ep) (caches ep)"

text \<open>
  The serving variables of a request: one for each eligible cache, with the saving
  \<open>(ld - lc) * n\<close> as its objective coefficient.
\<close>

definition serving_of :: "endpoint_rec list \<Rightarrow> request_rec \<Rightarrow> var_rec list" where
  "serving_of endpoints r =
     map (\<lambda>(cid, lc).
            \<lparr>v_name = Y_name (req_id r) cid, v_type = BINARY,
             v_obj = (ld (endpoint_of endpoints r) - lc) * count r\<rparr>)
       (eligible (endpoint_of endpoints r))"

text \<open>The (video, cache) pairs that the requests need, in the order of the requests.\<close>

definition wanted_pairs :: "endpoint_rec list \<Rightarrow> request_rec list \<Rightarrow> (int \<times> int) list" where
  "wanted_pairs endpoints requests =
     concat (map (\<lambda>r. map (\<lambda>(cid, lc). (video r, cid)) (eligible (endpoint_of endpoints r)))
               requests)"

text \<open>Each element once, in the order of the first occurrences.\<close>

definition add_key :: "'a \<Rightarrow> 'a list \<Rightarrow> 'a list" where
  "add_key k ks = (if k \<in> set ks then ks else ks @ [k])"

definition first_occurrences :: "'a list \<Rightarrow> 'a list" where
  "first_occurrences ks = fold add_key ks []"

definition placement_var :: "int \<times> int \<Rightarrow> var_rec" where
  "placement_var p = \<lparr>v_name = X_name (fst p) (snd p), v_type = BINARY, v_obj = 0\<rparr>"

text \<open>
  The terms that the pairs of the dictionary \<^verbatim>\<open>x\<close> owe to the capacity expression of
  cache \<open>c\<close>: one term per pair on that cache, the size of the video times the variable.
\<close>

definition cap_terms :: "int list \<Rightarrow> ((int \<times> int) \<times> nat) list \<Rightarrow> int \<Rightarrow> linexpr" where
  "cap_terms video_sizes x c =
     map (\<lambda>(p, i). (size_of video_sizes (fst p), i)) (filter (\<lambda>(p, i). snd p = c) x)"

text \<open>
  A constraint read with the names of its variables instead of their handles, so that it
  can be compared with the specification, which knows no handles.
\<close>

definition var_named :: "var_rec list \<Rightarrow> nat \<Rightarrow> var_name option" where
  "var_named vars i = (if i < length vars then Some (v_name (vars ! i)) else None)"

type_synonym named_constr =
  "constr_name \<times> (int \<times> var_name option) list \<times> (var_name option + int)"

definition named_constr :: "var_rec list \<Rightarrow> constr_rec \<Rightarrow> named_constr" where
  "named_constr vars cn =
     (c_name cn,
      map (\<lambda>(k, i). (k, var_named vars i)) (c_lhs cn),
      (case c_rhs cn of RhsVar i \<Rightarrow> Inl (var_named vars i) | RhsConst k \<Rightarrow> Inr k))"

definition named_constrs :: "gmodel \<Rightarrow> named_constr list" where
  "named_constrs m = map (named_constr (m_vars m)) (m_constrs m)"

text \<open>
  The linking constraints of a request, \<open>y[r,c] \<le> x[v,c]\<close> for each eligible cache, and its
  assignment constraint, the sum of its serving variables at most 1, present when there is
  at least one serving variable.
\<close>

definition links_of :: "endpoint_rec list \<Rightarrow> request_rec \<Rightarrow> named_constr list" where
  "links_of endpoints r =
     map (\<lambda>(cid, lc).
            (Link_name (req_id r) cid, [(1, Some (Y_name (req_id r) cid))],
             Inl (Some (X_name (video r) cid))))
       (eligible (endpoint_of endpoints r))"

definition assign_of :: "endpoint_rec list \<Rightarrow> request_rec \<Rightarrow> named_constr list" where
  "assign_of endpoints r =
     (if serving_of endpoints r = [] then []
      else [(Assign_name (req_id r),
             map (\<lambda>y. (1, Some (v_name y))) (serving_of endpoints r), Inr 1)])"

section \<open>Invariants of the builder\<close>

text \<open>
  What holds of the builder state between two steps of its loops: the keys of
  \<^verbatim>\<open>x\<close> are distinct; each key is bound to the handle of a placement variable of that
  name, its cache is in \<^verbatim>\<open>range(C)\<close> and its video has a size; the placement variables
  of the model are those of the keys, in order; the capacity expression of every cache of
  \<^verbatim>\<open>range(C)\<close> has one term per key on that cache, and no other cache has an
  expression; and every handle in a constraint is a handle of the model.
\<close>

definition handles_ok :: "var_rec list \<Rightarrow> constr_rec \<Rightarrow> bool" where
  "handles_ok vars cn \<longleftrightarrow>
     list_all (\<lambda>(k, i). i < length vars) (c_lhs cn) \<and>
     (case c_rhs cn of RhsVar i \<Rightarrow> i < length vars | RhsConst k \<Rightarrow> True)"

definition binv :: "int \<Rightarrow> int list \<Rightarrow> bstate \<Rightarrow> bool" where
  "binv C video_sizes b \<longleftrightarrow>
     distinct (map fst (b_x b)) \<and>
     list_all (\<lambda>(p, i). i < length (m_vars (b_model b)) \<and>
                  m_vars (b_model b) ! i = placement_var p \<and>
                  snd p \<in> set (py_range C) \<and>
                  (\<exists>sz. py_index video_sizes (fst p) = Inr sz)) (b_x b) \<and>
     filter is_placement (m_vars (b_model b)) = map (\<lambda>(p, i). placement_var p) (b_x b) \<and>
     (\<forall>c. b_capacity b c =
        (if c \<in> set (py_range C) then Some (cap_terms video_sizes (b_x b) c) else None)) \<and>
     list_all (handles_ok (m_vars (b_model b))) (m_constrs (b_model b))"

text \<open>
  A request makes an out-of-range use of an id when its endpoint id is outside
  \<open>[-E, E)\<close> for the \<open>E\<close> endpoints of the list, or when it has an eligible cache whose id
  is outside \<open>[0, C)\<close>, or when it has an eligible cache and its video id is outside
  \<open>[-V, V)\<close> for the \<open>V\<close> sizes of the list.
\<close>

text \<open>
  An exception is \<open>raised_by\<close> the library when one of its calls raises it, for some model
  and some arguments.
\<close>

definition raised_by :: "library \<Rightarrow> error \<Rightarrow> bool" where
  "raised_by lib e \<longleftrightarrow>
     env_raises lib = Some e \<or> model_raises lib = Some e \<or> (\<exists>m c. call_raises lib m c = Some e)"

definition out_of_range :: "int \<Rightarrow> int list \<Rightarrow> endpoint_rec list \<Rightarrow> request_rec \<Rightarrow> bool" where
  "out_of_range C video_sizes endpoints r \<longleftrightarrow>
     endpoint r < - int (length endpoints) \<or> int (length endpoints) \<le> endpoint r \<or>
     (\<exists>item \<in> set (eligible (endpoint_of endpoints r)).
        fst item < 0 \<or> C \<le> fst item \<or>
        video r < - int (length video_sizes) \<or> int (length video_sizes) \<le> video r)"

section \<open>A small instance\<close>

text \<open>
  Two videos of sizes 5 and 7, two caches of capacity 10, two endpoints and three requests.
  Cache 1 is slower than the origin for endpoint 0; video 0 is requested from both
  endpoints through cache 0.
\<close>

definition demo_sizes :: "int list" where
  "demo_sizes = [5, 7]"

definition demo_endpoints :: "endpoint_rec list" where
  "demo_endpoints =
     [\<lparr>ld = 100, caches = [(0, 10), (1, 150)]\<rparr>, \<lparr>ld = 50, caches = [(0, 20)]\<rparr>]"

definition demo_requests :: "request_rec list" where
  "demo_requests =
     [\<lparr>req_id = 0, video = 0, endpoint = 0, count = 3\<rparr>,
      \<lparr>req_id = 1, video = 1, endpoint = 0, count = 2\<rparr>,
      \<lparr>req_id = 2, video = 0, endpoint = 1, count = 1\<rparr>]"

section \<open>The output format, as the specification describes it\<close>

text \<open>
  The videos stored on cache \<open>c\<close>: those of the placement variables on \<open>c\<close> whose solved
  value is above \<open>0.5\<close>, in ascending order. The used caches are the caches of
  \<^verbatim>\<open>range(C)\<close> that store at least one video, in ascending order. The text of the
  output file is the number of used caches on a first line, then one line for each used
  cache: its id and the ids of its videos, separated by spaces.
\<close>

definition grouped :: "((int \<times> int) \<times> nat) list \<Rightarrow> (nat \<Rightarrow> rat) \<Rightarrow> int \<Rightarrow> int list" where
  "grouped x xval c =
     map (\<lambda>(p, i). fst p) (filter (\<lambda>(p, i). snd p = c \<and> xval i > 1 / 2) x)"

definition stored_on :: "((int \<times> int) \<times> nat) list \<Rightarrow> (nat \<Rightarrow> rat) \<Rightarrow> int \<Rightarrow> int list" where
  "stored_on x xval c = sort (grouped x xval c)"

definition used_list :: "int \<Rightarrow> ((int \<times> int) \<times> nat) list \<Rightarrow> (nat \<Rightarrow> rat) \<Rightarrow> int list" where
  "used_list C x xval = filter (\<lambda>c. stored_on x xval c \<noteq> []) (py_range C)"

definition placement_text :: "int \<Rightarrow> ((int \<times> int) \<times> nat) list \<Rightarrow> (nat \<Rightarrow> rat) \<Rightarrow> string" where
  "placement_text C x xval =
     str_int (int (length (used_list C x xval))) @ [CHR 0x0A] @
     concat (map (\<lambda>c. str_int c @ '' '' @ join_space (map str_int (stored_on x xval c)) @
                        [CHR 0x0A])
               (used_list C x xval))"

text \<open>A world in which nothing has been written and no solver resource exists.\<close>

definition world0 :: "(string \<rightharpoonup> line list) \<Rightarrow> world" where
  "world0 fs = \<lparr>readable = fs, written = [], env_st = Absent, model_st = Absent\<rparr>"

section \<open>Properties of the loops and of the reader\<close>

lemma for_loop_append:
  "for_loop (xs @ ys) body s =
     (case for_loop xs body s of Inl e \<Rightarrow> Inl e | Inr s' \<Rightarrow> for_loop ys body s')"
  by (induction xs arbitrary: s) (auto split: sum.splits)

lemma for_loop_error:
  assumes "for_loop xs body s = Inl e"
    and "\<And>i s e. body i s = Inl e \<Longrightarrow> P e"
  shows "P e"
  using assms by (induction xs arbitrary: s) (auto split: sum.splits)

lemma py_range_nonpos: "n \<le> 0 \<Longrightarrow> py_range n = []"
  by (simp add: py_range_def)

lemma py_range_Suc: "py_range (int (Suc n)) = py_range (int n) @ [int n]"
  by (simp add: py_range_def upto_rec2)

lemma py_range_nat: "py_range n = py_range (int (nat n))"
  by (cases "n \<le> 0") (simp_all add: py_range_nonpos)

lemma set_py_range: "set (py_range n) = {0..<n}"
  by (auto simp: py_range_def)

lemma map_int_IntTok: "map_int (map IntTok ns) = Inr ns"
  by (induction ns) auto

lemma map_int_Inr: "map_int l = Inr ns \<Longrightarrow> l = map IntTok ns"
proof (induction l arbitrary: ns)
  case Nil
  then show ?case by simp
next
  case (Cons t ts)
  then show ?case by (cases t) (auto split: sum.splits)
qed


lemma unpack2_Inr: "unpack2 l = Inr p \<longleftrightarrow> l = connection_line p"
proof (cases l rule: unpack2.cases)
  case (1 a b)
  then show ?thesis
    by (cases a; cases b; cases p) (auto simp: connection_line_def)
qed (auto simp: connection_line_def)



lemma unpack2_connection_line: "unpack2 (connection_line p) = Inr p"
  by (simp add: connection_line_def)

lemma connection_line_inj: "connection_line q = connection_line p \<longleftrightarrow> q = p"
  by (auto simp: connection_line_def prod_eq_iff)

lemma read_cache_Inr:
  "read_cache i (cc, f) = Inr (cc', f') \<longleftrightarrow>
     (\<exists>p. f = connection_line p # f' \<and> cc' = AList.update (fst p) (snd p) cc)"
proof (cases f)
  case Nil
  then show ?thesis by (simp add: read_cache_def)
next
  case (Cons l rest)
  show ?thesis
  proof (cases "unpack2 l")
    case (Inl e)
    then have "\<And>p. l \<noteq> connection_line p"
      using unpack2_Inr [of l] by auto
    with Inl Cons show ?thesis by (auto simp: read_cache_def)
  next
    case (Inr p)
    then have "l = connection_line p" by (simp add: unpack2_Inr)
    with Cons show ?thesis
      by (auto simp: read_cache_def unpack2_connection_line connection_line_inj
          split: prod.splits)
  qed
qed


lemma read_caches_Inr:
  "for_loop (py_range (int n)) read_cache (cc, f) = Inr (cc', f') \<longleftrightarrow>
     (\<exists>conns. length conns = n \<and> f = map connection_line conns @ f' \<and>
        cc' = foldl (\<lambda>cc p. AList.update (fst p) (snd p) cc) cc conns)"
proof (induction n arbitrary: cc' f')
  case 0
  then show ?case by (auto simp: py_range_nonpos)
next
  case (Suc n)
  let ?upd = "\<lambda>cc p. AList.update (fst p) (snd p) cc"
  show ?case
  proof
    assume "for_loop (py_range (int (Suc n))) read_cache (cc, f) = Inr (cc', f')"
    then obtain cc1 f1 where
      a: "for_loop (py_range (int n)) read_cache (cc, f) = Inr (cc1, f1)" and
      b: "read_cache (int n) (cc1, f1) = Inr (cc', f')"
      unfolding py_range_Suc for_loop_append by (auto split: sum.splits)
    from a Suc.IH obtain conns where
      c: "length conns = n" "f = map connection_line conns @ f1" "cc1 = foldl ?upd cc conns"
      by blast
    from b obtain p where d: "f1 = connection_line p # f'" "cc' = ?upd cc1 p"
      by (auto simp: read_cache_Inr)
    from c d have "length (conns @ [p]) = Suc n \<and> f = map connection_line (conns @ [p]) @ f'
       \<and> cc' = foldl ?upd cc (conns @ [p])" by simp
    then show "\<exists>conns. length conns = Suc n \<and> f = map connection_line conns @ f' \<and>
        cc' = foldl ?upd cc conns" by blast
  next
    assume "\<exists>conns. length conns = Suc n \<and> f = map connection_line conns @ f' \<and>
        cc' = foldl ?upd cc conns"
    then obtain conns where
      c: "length conns = Suc n" "f = map connection_line conns @ f'" "cc' = foldl ?upd cc conns"
      by blast
    then obtain cs p where e: "conns = cs @ [p]"
      by (cases conns rule: rev_cases) auto
    with c have "length cs = n" by simp
    with Suc.IH [of "foldl ?upd cc cs" "connection_line p # f'"] c e
    have "for_loop (py_range (int n)) read_cache (cc, f) =
            Inr (foldl ?upd cc cs, connection_line p # f')"
      by auto
    moreover have "read_cache (int n) (foldl ?upd cc cs, connection_line p # f') = Inr (cc', f')"
      unfolding read_cache_Inr using c e by (intro exI [of _ p]) simp
    ultimately show "for_loop (py_range (int (Suc n))) read_cache (cc, f) = Inr (cc', f')"
      unfolding py_range_Suc for_loop_append by simp
  qed
qed

lemma read_endpoint_Inr:
  "read_endpoint i (eps, f) = Inr (eps', f') \<longleftrightarrow>
     (\<exists>b. block_ok b \<and> f = block_lines b @ f' \<and> eps' = eps @ [block_endpoint b])"
proof
  assume a: "read_endpoint i (eps, f) = Inr (eps', f')"
  then obtain h f1 where f: "f = h # f1"
    by (cases f) (auto simp: read_endpoint_def)
  from a f have len: "length h = 2"
    by (auto simp: read_endpoint_def split: if_splits)
  then obtain t1 t2 where h: "h = [t1, t2]"
    by (cases h; cases "tl h") auto
  from a f h obtain ld_v k cc where
    t: "t1 = IntTok ld_v" "t2 = IntTok k" and
    l: "for_loop (py_range k) read_cache ([], f1) = Inr (cc, f')" and
    e: "eps' = eps @ [\<lparr>ld = ld_v, caches = cc\<rparr>]"
    by (cases t1; cases t2) (auto simp: read_endpoint_def split: sum.splits)
  from l have "for_loop (py_range (int (nat k))) read_cache ([], f1) = Inr (cc, f')"
    using py_range_nat [of k] by simp
  then obtain conns where
    c: "length conns = nat k" "f1 = map connection_line conns @ f'"
       "cc = foldl (\<lambda>cc p. AList.update (fst p) (snd p) cc) [] conns"
    unfolding read_caches_Inr by blast
  have "block_ok (ld_v, k, conns) \<and> f = block_lines (ld_v, k, conns) @ f' \<and>
     eps' = eps @ [block_endpoint (ld_v, k, conns)]"
    using f h t c e by (simp add: block_ok_def block_lines_def block_endpoint_def)
  then show "\<exists>b. block_ok b \<and> f = block_lines b @ f' \<and> eps' = eps @ [block_endpoint b]"
    by blast
next
  assume "\<exists>b. block_ok b \<and> f = block_lines b @ f' \<and> eps' = eps @ [block_endpoint b]"
  then obtain ld_v k conns where
    b: "length conns = nat k" "f = [IntTok ld_v, IntTok k] # map connection_line conns @ f'"
       "eps' = eps @ [\<lparr>ld = ld_v,
                      caches = foldl (\<lambda>cc p. AList.update (fst p) (snd p) cc) [] conns\<rparr>]"
    by (auto simp: block_ok_def block_lines_def block_endpoint_def)
  have "for_loop (py_range (int (nat k))) read_cache ([], map connection_line conns @ f') =
     Inr (foldl (\<lambda>cc p. AList.update (fst p) (snd p) cc) [] conns, f')"
    unfolding read_caches_Inr using b(1) by blast
  then have "for_loop (py_range k) read_cache ([], map connection_line conns @ f') =
     Inr (foldl (\<lambda>cc p. AList.update (fst p) (snd p) cc) [] conns, f')"
    using py_range_nat [of k] by simp
  with b show "read_endpoint i (eps, f) = Inr (eps', f')"
    by (simp add: read_endpoint_def)
qed



lemma read_endpoints_Inr:
  "for_loop (py_range (int n)) read_endpoint (eps, f) = Inr (eps', f') \<longleftrightarrow>
     (\<exists>blocks. length blocks = n \<and> list_all block_ok blocks \<and>
        f = concat (map block_lines blocks) @ f' \<and> eps' = eps @ map block_endpoint blocks)"
proof (induction n arbitrary: eps' f')
  case 0
  then show ?case by (auto simp: py_range_nonpos)
next
  case (Suc n)
  show ?case
  proof
    assume "for_loop (py_range (int (Suc n))) read_endpoint (eps, f) = Inr (eps', f')"
    then obtain eps1 f1 where
      a: "for_loop (py_range (int n)) read_endpoint (eps, f) = Inr (eps1, f1)" and
      b: "read_endpoint (int n) (eps1, f1) = Inr (eps', f')"
      unfolding py_range_Suc for_loop_append by (auto split: sum.splits)
    from a Suc.IH obtain blocks where
      c: "length blocks = n" "list_all block_ok blocks"
         "f = concat (map block_lines blocks) @ f1" "eps1 = eps @ map block_endpoint blocks"
      by blast
    from b obtain bl where
      d: "block_ok bl" "f1 = block_lines bl @ f'" "eps' = eps1 @ [block_endpoint bl]"
      unfolding read_endpoint_Inr by blast
    from c d have "length (blocks @ [bl]) = Suc n \<and> list_all block_ok (blocks @ [bl]) \<and>
       f = concat (map block_lines (blocks @ [bl])) @ f' \<and>
       eps' = eps @ map block_endpoint (blocks @ [bl])" by simp
    then show "\<exists>blocks. length blocks = Suc n \<and> list_all block_ok blocks \<and>
        f = concat (map block_lines blocks) @ f' \<and> eps' = eps @ map block_endpoint blocks"
      by blast
  next
    assume "\<exists>blocks. length blocks = Suc n \<and> list_all block_ok blocks \<and>
        f = concat (map block_lines blocks) @ f' \<and> eps' = eps @ map block_endpoint blocks"
    then obtain blocks where
      c: "length blocks = Suc n" "list_all block_ok blocks"
         "f = concat (map block_lines blocks) @ f'" "eps' = eps @ map block_endpoint blocks"
      by blast
    then obtain bs bl where e: "blocks = bs @ [bl]"
      by (cases blocks rule: rev_cases) auto
    with c have "length bs = n \<and> list_all block_ok bs \<and>
        f = concat (map block_lines bs) @ (block_lines bl @ f') \<and>
        eps @ map block_endpoint bs = eps @ map block_endpoint bs" by simp
    then have "for_loop (py_range (int n)) read_endpoint (eps, f) =
            Inr (eps @ map block_endpoint bs, block_lines bl @ f')"
      unfolding Suc.IH by blast
    moreover have "read_endpoint (int n) (eps @ map block_endpoint bs, block_lines bl @ f') =
        Inr (eps', f')"
      unfolding read_endpoint_Inr using c e by (intro exI [of _ bl]) simp
    ultimately show "for_loop (py_range (int (Suc n))) read_endpoint (eps, f) = Inr (eps', f')"
      unfolding py_range_Suc for_loop_append by simp
  qed
qed

lemma request_line_inj: "request_line q = request_line q' \<longleftrightarrow> q = q'"
  by (cases q; cases q') (simp add: request_line_def)

lemma read_request_Inr:
  "read_request (int r) (reqs, f) = Inr (reqs', f') \<longleftrightarrow>
     (\<exists>q. f = request_line q # f' \<and> reqs' = reqs @ [numbered_request (r, q)])"
proof
  assume a: "read_request (int r) (reqs, f) = Inr (reqs', f')"
  then obtain l where f: "f = l # f'"
    by (cases f) (auto simp: read_request_def split: if_splits sum.splits)
  from a f have len: "length l = 3"
    by (auto simp: read_request_def split: if_splits)
  from a f len obtain ns where
    m: "map_int l = Inr ns" and
    r: "reqs' = reqs @ [\<lparr>req_id = int r, video = ns ! 0, endpoint = ns ! 1, count = ns ! 2\<rparr>]"
    by (auto simp: read_request_def split: sum.splits)
  from m have l: "l = map IntTok ns" by (rule map_int_Inr)
  with len have "length ns = 3" by simp
  then obtain v e n where ns: "ns = [v, e, n]"
    by (cases ns; cases "tl ns"; cases "tl (tl ns)") auto
  have "f = request_line (v, e, n) # f' \<and> reqs' = reqs @ [numbered_request (r, (v, e, n))]"
    using f l ns r by (simp add: request_line_def numbered_request_def)
  then show "\<exists>q. f = request_line q # f' \<and> reqs' = reqs @ [numbered_request (r, q)]"
    by blast
next
  assume "\<exists>q. f = request_line q # f' \<and> reqs' = reqs @ [numbered_request (r, q)]"
  then obtain v e n where
    "f = [IntTok v, IntTok e, IntTok n] # f'"
    "reqs' = reqs @ [\<lparr>req_id = int r, video = v, endpoint = e, count = n\<rparr>]"
    by (auto simp: request_line_def numbered_request_def)
  then show "read_request (int r) (reqs, f) = Inr (reqs', f')"
    by (simp add: read_request_def)
qed


lemma numbered_requests_snoc:
  "numbered_requests (qs @ [q]) = numbered_requests qs @ [numbered_request (length qs, q)]"
  by (simp add: numbered_requests_def enumerate_append_eq)

lemma read_requests_Inr:
  "for_loop (py_range (int n)) read_request ([], f) = Inr (reqs', f') \<longleftrightarrow>
     (\<exists>qs. length qs = n \<and> f = map request_line qs @ f' \<and> reqs' = numbered_requests qs)"
proof (induction n arbitrary: reqs' f')
  case 0
  then show ?case by (auto simp: py_range_nonpos numbered_requests_def)
next
  case (Suc n)
  show ?case
  proof
    assume "for_loop (py_range (int (Suc n))) read_request ([], f) = Inr (reqs', f')"
    then obtain reqs1 f1 where
      a: "for_loop (py_range (int n)) read_request ([], f) = Inr (reqs1, f1)" and
      b: "read_request (int n) (reqs1, f1) = Inr (reqs', f')"
      unfolding py_range_Suc for_loop_append by (auto split: sum.splits)
    from a Suc.IH obtain qs where
      c: "length qs = n" "f = map request_line qs @ f1" "reqs1 = numbered_requests qs"
      by blast
    from b obtain q where
      d: "f1 = request_line q # f'" "reqs' = reqs1 @ [numbered_request (n, q)]"
      unfolding read_request_Inr by blast
    from c d have "length (qs @ [q]) = Suc n \<and> f = map request_line (qs @ [q]) @ f' \<and>
       reqs' = numbered_requests (qs @ [q])"
      by (simp add: numbered_requests_snoc)
    then show "\<exists>qs. length qs = Suc n \<and> f = map request_line qs @ f' \<and>
       reqs' = numbered_requests qs"
      by blast
  next
    assume "\<exists>qs. length qs = Suc n \<and> f = map request_line qs @ f' \<and>
       reqs' = numbered_requests qs"
    then obtain qs where
      c: "length qs = Suc n" "f = map request_line qs @ f'" "reqs' = numbered_requests qs"
      by blast
    then obtain qs0 q where e: "qs = qs0 @ [q]"
      by (cases qs rule: rev_cases) auto
    with c have n: "length qs0 = n" by simp
    with c e have "length qs0 = n \<and> f = map request_line qs0 @ (request_line q # f') \<and>
        numbered_requests qs0 = numbered_requests qs0" by simp
    then have "for_loop (py_range (int n)) read_request ([], f) =
            Inr (numbered_requests qs0, request_line q # f')"
      unfolding Suc.IH by blast
    moreover have "read_request (int n) (numbered_requests qs0, request_line q # f') =
        Inr (reqs', f')"
      unfolding read_request_Inr using c e n
      by (intro exI [of _ q]) (simp add: numbered_requests_snoc)
    ultimately show "for_loop (py_range (int (Suc n))) read_request ([], f) = Inr (reqs', f')"
      unfolding py_range_Suc for_loop_append by simp
  qed
qed




lemma lire_instance_accepts:
  assumes "well_formed V E R sizes blocks qs"
  shows "lire_instance (instance_lines V E R C X sizes blocks qs @ extra) =
     Inr (V, E, R, C, X, sizes, map block_endpoint blocks, numbered_requests qs)"
proof -
  from assms have wf: "int (length sizes) = V" "length blocks = nat E"
    "list_all block_ok blocks" "length qs = nat R"
    by (simp_all add: well_formed_def)
  let ?f3 = "map request_line qs @ extra"
  let ?f2 = "concat (map block_lines blocks) @ ?f3"
  have e: "for_loop (py_range E) read_endpoint ([], ?f2) = Inr (map block_endpoint blocks, ?f3)"
  proof -
    have "for_loop (py_range (int (nat E))) read_endpoint ([], ?f2) =
        Inr (map block_endpoint blocks, ?f3)"
      unfolding read_endpoints_Inr using wf by (intro exI [of _ blocks]) simp
    then show ?thesis using py_range_nat [of E] by simp
  qed
  have r: "for_loop (py_range R) read_request ([], ?f3) = Inr (numbered_requests qs, extra)"
  proof -
    have "for_loop (py_range (int (nat R))) read_request ([], ?f3) =
        Inr (numbered_requests qs, extra)"
      unfolding read_requests_Inr using wf by (intro exI [of _ qs]) simp
    then show ?thesis using py_range_nat [of R] by simp
  qed
  have m: "map_int [IntTok V, IntTok E, IntTok R, IntTok C, IntTok X] = Inr [V, E, R, C, X]"
    by simp
  show ?thesis
    unfolding lire_instance_def instance_lines_def
    using wf(1) e r by (simp add: map_int_IntTok)
qed


subsection \<open>Claim C3: what the reader accepts and what it rejects\<close>




section \<open>What the builder constructs\<close>

lemma var_named_append: "i < length vars \<Longrightarrow> var_named (vars @ vs2) i = var_named vars i"
  by (simp add: var_named_def nth_append)

lemma var_named_new: "var_named (vars @ [v]) (length vars) = Some (v_name v)"
  by (simp add: var_named_def)

lemma named_constr_append:
  "handles_ok vars cn \<Longrightarrow> named_constr (vars @ vs2) cn = named_constr vars cn"
  by (auto simp: handles_ok_def named_constr_def var_named_append list_all_iff
      split: rhs.splits)

lemma named_constrs_append:
  "list_all (handles_ok vars) cns \<Longrightarrow>
     map (named_constr (vars @ vs2)) cns = map (named_constr vars) cns"
  by (simp add: list_all_iff named_constr_append)

lemma handles_ok_append: "handles_ok vars cn \<Longrightarrow> handles_ok (vars @ vs2) cn"
  by (auto simp: handles_ok_def list_all_iff split: rhs.splits)

lemma cap_terms_snoc:
  "cap_terms sizes (x @ [(p, i)]) c =
     cap_terms sizes x c @ (if snd p = c then [(size_of sizes (fst p), i)] else [])"
  by (simp add: cap_terms_def)

lemma is_placement_simps [simp]:
  "is_placement (placement_var p)"
  "\<not> is_placement \<lparr>v_name = Y_name r c, v_type = t, v_obj = k\<rparr>"
  "\<not> is_serving (placement_var p)"
  "is_serving \<lparr>v_name = Y_name r c, v_type = t, v_obj = k\<rparr>"
  by (simp_all add: is_placement_def is_serving_def placement_var_def)

lemma ensure_x_step:
  assumes inv: "binv C sizes b" and ok: "ensure_x lib vid cid sizes b = Inr b1"
  shows "binv C sizes b1 \<and>
    map fst (b_x b1) = add_key (vid, cid) (map fst (b_x b)) \<and>
    filter is_serving (m_vars (b_model b1)) = filter is_serving (m_vars (b_model b)) \<and>
    m_constrs (b_model b1) = m_constrs (b_model b) \<and>
    (\<exists>vs2. m_vars (b_model b1) = m_vars (b_model b) @ vs2) \<and>
    (\<exists>xv. map_of (b_x b1) (vid, cid) = Some xv \<and>
          xv < length (m_vars (b_model b1)) \<and>
          m_vars (b_model b1) ! xv = placement_var (vid, cid)) \<and>
    m_sense (b_model b1) = m_sense (b_model b)"
proof (cases "map_of (b_x b) (vid, cid)")
  case (Some xv)
  with ok have b1: "b1 = b" by (simp add: ensure_x_def)
  from Some have mem: "((vid, cid), xv) \<in> set (b_x b)" by (rule map_of_SomeD)
  then have "(vid, cid) \<in> set (map fst (b_x b))" by force
  moreover from inv mem have "xv < length (m_vars (b_model b)) \<and>
     m_vars (b_model b) ! xv = placement_var (vid, cid)"
    by (auto simp: binv_def list_all_iff)
  ultimately show ?thesis
    using inv Some b1 by (simp add: add_key_def)
next
  case None
  let ?vars = "m_vars (b_model b)"
  let ?xv = "length ?vars"
  from None have fresh: "(vid, cid) \<notin> set (map fst (b_x b))"
    by (simp add: map_of_eq_None_iff)
  from ok None obtain acc sz where
    cap: "b_capacity b cid = Some acc" and
    sz: "py_index sizes vid = Inr sz" and
    b1: "b1 = b\<lparr>b_model := (b_model b)\<lparr>m_vars := ?vars @ [placement_var (vid, cid)]\<rparr>,
                b_x := b_x b @ [((vid, cid), ?xv)],
                b_capacity := (b_capacity b)(cid \<mapsto> acc @ [(sz, ?xv)])\<rparr>"
    by (auto simp: ensure_x_def addVar_def calling_def placement_var_def Let_def
        split: option.splits sum.splits)
  from inv cap have cid: "cid \<in> set (py_range C)" and
    acc: "acc = cap_terms sizes (b_x b) cid"
    by (auto simp: binv_def split: if_splits)
  have "binv C sizes b1"
    unfolding binv_def b1 using inv fresh cid sz acc
    by (auto simp: binv_def list_all_iff nth_append cap_terms_snoc size_of_def
        handles_ok_append)
  moreover have "map fst (b_x b1) = add_key (vid, cid) (map fst (b_x b))"
    using fresh by (simp add: b1 add_key_def)
  moreover have "map_of (b_x b1) (vid, cid) = Some ?xv"
    using None by (simp add: b1 map_of_append map_add_def)
  ultimately show ?thesis
    by (simp add: b1)
qed


lemma binv_add_serving:
  assumes "binv C sizes b1"
    and "list_all (handles_ok (m_vars (b_model b1) @ [yv])) cns"
    and "\<not> is_placement yv"
  shows "binv C sizes
     (b1\<lparr>b_model := (b_model b1)\<lparr>m_vars := m_vars (b_model b1) @ [yv],
                                  m_constrs := m_constrs (b_model b1) @ cns\<rparr>\<rparr>)"
  using assms
  by (auto simp: binv_def list_all_iff nth_append handles_ok_append)

lemma cache_body_step:
  assumes inv: "binv C sizes b"
    and ys: "list_all (\<lambda>y. y < length (m_vars (b_model b))) ys"
    and ok: "cache_body lib r ld_e sizes (cid, lc) (b, ys) = Inr (b', ys')"
  shows "binv C sizes b' \<and>
     list_all (\<lambda>y. y < length (m_vars (b_model b'))) ys' \<and>
     map fst (b_x b') =
       (if lc < ld_e then add_key (video r, cid) (map fst (b_x b)) else map fst (b_x b)) \<and>
     filter is_serving (m_vars (b_model b')) =
       filter is_serving (m_vars (b_model b)) @
       (if lc < ld_e
        then [\<lparr>v_name = Y_name (req_id r) cid, v_type = BINARY,
               v_obj = (ld_e - lc) * count r\<rparr>]
        else []) \<and>
     named_constrs (b_model b') =
       named_constrs (b_model b) @
       (if lc < ld_e
        then [(Link_name (req_id r) cid, [(1, Some (Y_name (req_id r) cid))],
               Inl (Some (X_name (video r) cid)))]
        else []) \<and>
     map (var_named (m_vars (b_model b'))) ys' =
       map (var_named (m_vars (b_model b))) ys @
       (if lc < ld_e then [Some (Y_name (req_id r) cid)] else []) \<and>
     m_sense (b_model b') = m_sense (b_model b) \<and>
     (\<exists>vs2. m_vars (b_model b') = m_vars (b_model b) @ vs2)"
proof (cases "lc < ld_e")
  case False
  with ok have "b' = b" "ys' = ys" by (simp_all add: cache_body_def)
  with inv ys False show ?thesis by simp
next
  case True
  let ?yv = "\<lparr>v_name = Y_name (req_id r) cid, v_type = BINARY, v_obj = (ld_e - lc) * count r\<rparr>"
  from ok True obtain b1 xv where
    e: "ensure_x lib (video r) cid sizes b = Inr b1" and
    x: "map_of (b_x b1) (video r, cid) = Some xv" and
    b': "b' = b1\<lparr>b_model := (b_model b1)\<lparr>m_vars := m_vars (b_model b1) @ [?yv],
           m_constrs := m_constrs (b_model b1) @
             [\<lparr>c_name = Link_name (req_id r) cid,
               c_lhs = [(1, length (m_vars (b_model b1)))], c_rhs = RhsVar xv\<rparr>]\<rparr>\<rparr>" and
    ys': "ys' = ys @ [length (m_vars (b_model b1))]"
    by (auto simp: cache_body_def Let_def addVar_def addConstr_def calling_def
        split: sum.splits option.splits)
  note st = ensure_x_step [OF inv e]
  from st x have xv: "xv < length (m_vars (b_model b1))"
    "m_vars (b_model b1) ! xv = placement_var (video r, cid)" by auto
  from st obtain vs2 where vs2: "m_vars (b_model b1) = m_vars (b_model b) @ vs2" by blast
  let ?link = "\<lparr>c_name = Link_name (req_id r) cid,
               c_lhs = [(1, length (m_vars (b_model b1)))], c_rhs = RhsVar xv\<rparr>"
  have h: "list_all (handles_ok (m_vars (b_model b1) @ [?yv])) [?link]"
    using xv by (simp add: handles_ok_def)
  have 1: "binv C sizes b'"
    unfolding b' using st h by (intro binv_add_serving) simp_all
  have 2: "list_all (\<lambda>y. y < length (m_vars (b_model b'))) ys'"
    using ys vs2 by (auto simp: b' ys' list_all_iff)
  have 3: "map fst (b_x b') = add_key (video r, cid) (map fst (b_x b))"
    using st by (simp add: b')
  have 4: "filter is_serving (m_vars (b_model b')) =
       filter is_serving (m_vars (b_model b)) @ [?yv]"
    using st by (simp add: b')
  have old: "list_all (handles_ok (m_vars (b_model b))) (m_constrs (b_model b))"
    using inv by (simp add: binv_def)
  have "named_constr (m_vars (b_model b1) @ [?yv]) ?link =
     (Link_name (req_id r) cid, [(1, Some (Y_name (req_id r) cid))],
               Inl (Some (X_name (video r) cid)))"
    using xv by (simp add: named_constr_def var_named_def nth_append placement_var_def)
  moreover have "map (named_constr (m_vars (b_model b1) @ [?yv])) (m_constrs (b_model b)) =
     map (named_constr (m_vars (b_model b))) (m_constrs (b_model b))"
    using named_constrs_append [OF old, of "vs2 @ [?yv]"] vs2 by simp
  ultimately have 5: "named_constrs (b_model b') =
       named_constrs (b_model b) @
        [(Link_name (req_id r) cid, [(1, Some (Y_name (req_id r) cid))],
               Inl (Some (X_name (video r) cid)))]"
    using st by (simp add: b' named_constrs_def)
  have "map (var_named (m_vars (b_model b) @ vs2 @ [?yv])) ys =
      map (var_named (m_vars (b_model b))) ys"
    using ys by (simp add: list_all_iff var_named_append)
  then have 6: "map (var_named (m_vars (b_model b'))) ys' =
       map (var_named (m_vars (b_model b))) ys @ [Some (Y_name (req_id r) cid)]"
    using vs2 var_named_new [of "m_vars (b_model b1)" ?yv] by (simp add: b' ys')
  have 7: "m_sense (b_model b') = m_sense (b_model b)"
    using st by (simp add: b')
  have 8: "\<exists>vs3. m_vars (b_model b') = m_vars (b_model b) @ vs3"
    using vs2 by (simp add: b')
  from True 1 2 3 4 5 6 7 8 show ?thesis by simp
qed


lemma cache_loop:
  assumes "binv C sizes b"
    and "list_all (\<lambda>y. y < length (m_vars (b_model b))) ys"
    and "for_loop cs (cache_body lib r ld_e sizes) (b, ys) = Inr (b', ys')"
  shows "binv C sizes b' \<and>
     list_all (\<lambda>y. y < length (m_vars (b_model b'))) ys' \<and>
     map fst (b_x b') =
       fold add_key (map (\<lambda>(cid, lc). (video r, cid)) (filter (\<lambda>(cid, lc). lc < ld_e) cs))
         (map fst (b_x b)) \<and>
     filter is_serving (m_vars (b_model b')) =
       filter is_serving (m_vars (b_model b)) @
       map (\<lambda>(cid, lc). \<lparr>v_name = Y_name (req_id r) cid, v_type = BINARY,
                          v_obj = (ld_e - lc) * count r\<rparr>)
         (filter (\<lambda>(cid, lc). lc < ld_e) cs) \<and>
     named_constrs (b_model b') =
       named_constrs (b_model b) @
       map (\<lambda>(cid, lc). (Link_name (req_id r) cid, [(1, Some (Y_name (req_id r) cid))],
                          Inl (Some (X_name (video r) cid))))
         (filter (\<lambda>(cid, lc). lc < ld_e) cs) \<and>
     map (var_named (m_vars (b_model b'))) ys' =
       map (var_named (m_vars (b_model b))) ys @
       map (\<lambda>(cid, lc). Some (Y_name (req_id r) cid)) (filter (\<lambda>(cid, lc). lc < ld_e) cs) \<and>
     m_sense (b_model b') = m_sense (b_model b) \<and>
     (\<exists>vs2. m_vars (b_model b') = m_vars (b_model b) @ vs2)"
  using assms
proof (induction cs arbitrary: b ys)
  case Nil
  then show ?case by simp
next
  case (Cons item rest)
  obtain cid lc where item: "item = (cid, lc)" by (cases item)
  from Cons.prems(3) item obtain b1 ys1 where
    step: "cache_body lib r ld_e sizes (cid, lc) (b, ys) = Inr (b1, ys1)" and
    rest: "for_loop rest (cache_body lib r ld_e sizes) (b1, ys1) = Inr (b', ys')"
    by (auto split: sum.splits)
  note s1 = cache_body_step [OF Cons.prems(1) Cons.prems(2) step]
  from s1 have i1: "binv C sizes b1" "list_all (\<lambda>y. y < length (m_vars (b_model b1))) ys1"
    by simp_all
  note s2 = Cons.IH [OF i1 rest]
  from s1 obtain vs2 where v1: "m_vars (b_model b1) = m_vars (b_model b) @ vs2" by blast
  from s2 obtain vs3 where v2: "m_vars (b_model b') = m_vars (b_model b1) @ vs3" by blast
  from v1 v2 have ext: "\<exists>vs4. m_vars (b_model b') = m_vars (b_model b) @ vs4" by simp
  show ?case
  proof (cases "lc < ld_e")
    case True
    with s1 s2 ext item show ?thesis by simp
  next
    case False
    with s1 s2 ext item show ?thesis by simp
  qed
qed


lemma binv_add_constr:
  assumes "binv C sizes b" and "handles_ok (m_vars (b_model b)) cn"
  shows "binv C sizes
     (b\<lparr>b_model := (b_model b)\<lparr>m_constrs := m_constrs (b_model b) @ [cn]\<rparr>\<rparr>)"
  using assms by (auto simp: binv_def)

lemma request_body_step:
  assumes inv: "binv C sizes b" and ok: "request_body lib sizes eps r b = Inr b'"
  shows "binv C sizes b' \<and>
     (\<exists>ep. py_index eps (endpoint r) = Inr ep) \<and>
     map fst (b_x b') = fold add_key (wanted_pairs eps [r]) (map fst (b_x b)) \<and>
     filter is_serving (m_vars (b_model b')) =
       filter is_serving (m_vars (b_model b)) @ serving_of eps r \<and>
     named_constrs (b_model b') =
       named_constrs (b_model b) @ links_of eps r @ assign_of eps r \<and>
     m_sense (b_model b') = m_sense (b_model b)"
proof -
  from ok obtain ep b1 ys where
    ep: "py_index eps (endpoint r) = Inr ep" and
    loop: "for_loop (caches ep) (cache_body lib r (ld ep) sizes) (b, []) = Inr (b1, ys)" and
    b': "b' = (if ys \<noteq> [] then
            b1\<lparr>b_model := (b_model b1)\<lparr>m_constrs := m_constrs (b_model b1) @
              [\<lparr>c_name = Assign_name (req_id r), c_lhs = quicksum ys,
                c_rhs = RhsConst 1\<rparr>]\<rparr>\<rparr>
          else b1)"
    by (auto simp: request_body_def addConstr_def calling_def
        split: sum.splits if_splits option.splits)
  have e: "endpoint_of eps r = ep" by (simp add: endpoint_of_def ep)
  have "list_all (\<lambda>y. y < length (m_vars (b_model b))) []" by simp
  note l = cache_loop [OF inv this loop]
  let ?el = "filter (\<lambda>(cid, lc). lc < ld ep) (caches ep)"
  from l have names: "map (var_named (m_vars (b_model b1))) ys =
      map (\<lambda>(cid, lc). Some (Y_name (req_id r) cid)) ?el" by simp
  then have "length ys = length ?el" by (metis length_map)
  then have empty: "ys = [] \<longleftrightarrow> ?el = []" by auto
  have keys: "map fst (b_x b1) = fold add_key (wanted_pairs eps [r]) (map fst (b_x b))"
    using l by (simp add: wanted_pairs_def e eligible_def)
  have serv: "filter is_serving (m_vars (b_model b1)) =
       filter is_serving (m_vars (b_model b)) @ serving_of eps r"
    using l by (simp add: serving_of_def e eligible_def)
  have links: "named_constrs (b_model b1) = named_constrs (b_model b) @ links_of eps r"
    using l by (simp add: links_of_def e eligible_def)
  show ?thesis
  proof (cases "ys = []")
    case True
    with b' have "b' = b1" by simp
    moreover from True empty have "assign_of eps r = []"
      by (simp add: assign_of_def serving_of_def e eligible_def)
    ultimately show ?thesis using l ep keys serv links by simp
  next
    case False
    let ?cn = "\<lparr>c_name = Assign_name (req_id r), c_lhs = quicksum ys, c_rhs = RhsConst 1\<rparr>"
    from False b' have b'': "b' = b1\<lparr>b_model := (b_model b1)\<lparr>m_constrs :=
        m_constrs (b_model b1) @ [?cn]\<rparr>\<rparr>" by simp
    from l have h: "handles_ok (m_vars (b_model b1)) ?cn"
      by (simp add: handles_ok_def quicksum_def list_all_iff)
    from l have "binv C sizes b1" by simp
    then have 1: "binv C sizes b'" unfolding b'' using h by (rule binv_add_constr)
    have "map (\<lambda>(k, i). (k, var_named (m_vars (b_model b1)) i)) (quicksum ys) =
       map (\<lambda>n. (1, n)) (map (var_named (m_vars (b_model b1))) ys)"
      by (simp add: quicksum_def)
    also have "\<dots> = map (\<lambda>y. (1, Some (v_name y))) (serving_of eps r)"
      unfolding names by (simp add: serving_of_def e eligible_def split_def)
    finally have "named_constr (m_vars (b_model b1)) ?cn =
       (Assign_name (req_id r), map (\<lambda>y. (1, Some (v_name y))) (serving_of eps r), Inr 1)"
      by (simp add: named_constr_def)
    moreover from False empty have "serving_of eps r \<noteq> []"
      by (simp add: serving_of_def e eligible_def)
    ultimately have 2: "named_constrs (b_model b') =
       named_constrs (b_model b) @ links_of eps r @ assign_of eps r"
      using links by (simp add: b'' named_constrs_def addConstr_def assign_of_def)
    from 1 2 l ep keys serv show ?thesis by (simp add: b'' addConstr_def)
  qed
qed

lemma wanted_pairs_Cons:
  "wanted_pairs eps (r # rs) = wanted_pairs eps [r] @ wanted_pairs eps rs"
  by (simp add: wanted_pairs_def)

lemma request_loop:
  assumes "binv C sizes b" and "for_loop rs (request_body lib sizes eps) b = Inr b'"
  shows "binv C sizes b' \<and>
     (\<forall>r\<in>set rs. \<exists>ep. py_index eps (endpoint r) = Inr ep) \<and>
     map fst (b_x b') = fold add_key (wanted_pairs eps rs) (map fst (b_x b)) \<and>
     filter is_serving (m_vars (b_model b')) =
       filter is_serving (m_vars (b_model b)) @ concat (map (serving_of eps) rs) \<and>
     named_constrs (b_model b') =
       named_constrs (b_model b) @ concat (map (\<lambda>r. links_of eps r @ assign_of eps r) rs) \<and>
     m_sense (b_model b') = m_sense (b_model b)"
  using assms
proof (induction rs arbitrary: b)
  case Nil
  then show ?case by (simp add: wanted_pairs_def)
next
  case (Cons r rs)
  from Cons.prems(2) obtain b1 where
    step: "request_body lib sizes eps r b = Inr b1" and
    rest: "for_loop rs (request_body lib sizes eps) b1 = Inr b'"
    by (auto split: sum.splits)
  note s1 = request_body_step [OF Cons.prems(1) step]
  then have "binv C sizes b1" by simp
  note s2 = Cons.IH [OF this rest]
  from s1 s2 show ?case
    by (simp add: wanted_pairs_Cons [of eps r rs])
qed


lemma cap_terms_handles:
  assumes "binv C sizes b"
  shows "list_all (\<lambda>(k, i). i < length (m_vars (b_model b))) (cap_terms sizes (b_x b) c)"
  using assms by (auto simp: binv_def cap_terms_def list_all_iff)

lemma cap_body_step:
  assumes inv: "binv C sizes b" and ok: "cap_body lib X c b = Inr b'"
  shows "binv C sizes b' \<and> b_x b' = b_x b \<and> m_vars (b_model b') = m_vars (b_model b) \<and>
     m_sense (b_model b') = m_sense (b_model b) \<and>
     m_constrs (b_model b') =
       m_constrs (b_model b) @
       (if cap_terms sizes (b_x b) c \<noteq> []
        then [\<lparr>c_name = Cap_name c, c_lhs = cap_terms sizes (b_x b) c, c_rhs = RhsConst X\<rparr>]
        else [])"
proof -
  from ok obtain acc where acc: "b_capacity b c = Some acc"
    by (auto simp: cap_body_def split: option.splits)
  with inv have a: "acc = cap_terms sizes (b_x b) c"
    by (auto simp: binv_def split: if_splits)
  show ?thesis
  proof (cases "acc = []")
    case True
    with ok acc have "b' = b"
      by (auto simp: cap_body_def calling_def split: option.splits)
    with inv a True show ?thesis by simp
  next
    case False
    let ?cn = "\<lparr>c_name = Cap_name c, c_lhs = acc, c_rhs = RhsConst X\<rparr>"
    from False ok acc have b': "b' = b\<lparr>b_model := (b_model b)\<lparr>m_constrs :=
        m_constrs (b_model b) @ [?cn]\<rparr>\<rparr>"
      by (auto simp: cap_body_def addConstr_def calling_def split: option.splits)
    have "handles_ok (m_vars (b_model b)) ?cn"
      using cap_terms_handles [OF inv, of c] a by (simp add: handles_ok_def)
    with inv have "binv C sizes b'" unfolding b' by (rule binv_add_constr)
    with False a show ?thesis by (simp add: b' addConstr_def)
  qed
qed

lemma cap_loop:
  assumes "binv C sizes b" and "for_loop cs (cap_body lib X) b = Inr b'"
  shows "binv C sizes b' \<and> b_x b' = b_x b \<and> m_vars (b_model b') = m_vars (b_model b) \<and>
     m_sense (b_model b') = m_sense (b_model b) \<and>
     m_constrs (b_model b') =
       m_constrs (b_model b) @
       map (\<lambda>c. \<lparr>c_name = Cap_name c, c_lhs = cap_terms sizes (b_x b) c, c_rhs = RhsConst X\<rparr>)
         (filter (\<lambda>c. cap_terms sizes (b_x b) c \<noteq> []) cs)"
  using assms
proof (induction cs arbitrary: b)
  case Nil
  then show ?case by simp
next
  case (Cons c cs)
  from Cons.prems(2) obtain b1 where
    step: "cap_body lib X c b = Inr b1" and rest: "for_loop cs (cap_body lib X) b1 = Inr b'"
    by (auto split: sum.splits)
  note s1 = cap_body_step [OF Cons.prems(1) step]
  then have "binv C sizes b1" by simp
  note s2 = Cons.IH [OF this rest]
  from s1 s2 show ?case by simp
qed

lemma distinct_py_range: "distinct (py_range n)"
  by (simp add: py_range_def)

lemma new_linexpr_loop:
  assumes "for_loop cs (new_linexpr lib) cap0 = Inr cap"
  shows "cap = (\<lambda>c. if c \<in> set cs then Some [] else cap0 c)"
  using assms
proof (induction cs arbitrary: cap0)
  case Nil
  then show ?case by simp
next
  case (Cons c cs)
  from Cons.prems obtain cap1 where
    step: "new_linexpr lib c cap0 = Inr cap1" and
    rest: "for_loop cs (new_linexpr lib) cap1 = Inr cap"
    by (auto split: sum.splits)
  from step have "cap1 = cap0(c \<mapsto> [])"
    by (auto simp: new_linexpr_def calling_def split: option.splits)
  with Cons.IH [OF rest] show ?case by auto
qed

lemma binv_init:
  assumes "init_bstate lib C = Inr b0"
  shows "binv C sizes b0 \<and> b_x b0 = [] \<and> b_model b0 = new_model"
proof -
  from assms obtain cap where
    loop: "for_loop (py_range C) (new_linexpr lib) Map.empty = Inr cap" and
    b0: "b0 = \<lparr>b_model = new_model, b_x = [], b_capacity = cap\<rparr>"
    by (auto simp: init_bstate_def split: sum.splits)
  from new_linexpr_loop [OF loop] have "cap = (\<lambda>c. if c \<in> set (py_range C) then Some [] else None)"
    by simp
  with b0 show ?thesis
    by (simp add: binv_def new_model_def created_model_def cap_terms_def)
qed

lemma binv_sense:
  "binv C sizes b \<Longrightarrow> binv C sizes (b\<lparr>b_model := (b_model b)\<lparr>m_sense := k\<rparr>\<rparr>)"
  by (simp add: binv_def)

text \<open>What a successful run of both loops has built.\<close>

lemma build_loops_result:
  assumes "build_loops lib C X sizes eps rs = Inr b"
  shows "binv C sizes b \<and>
     (\<forall>r\<in>set rs. \<exists>ep. py_index eps (endpoint r) = Inr ep) \<and>
     map fst (b_x b) = first_occurrences (wanted_pairs eps rs) \<and>
     filter is_serving (m_vars (b_model b)) = concat (map (serving_of eps) rs) \<and>
     m_sense (b_model b) = MAXIMIZE \<and>
     (\<exists>cs1. m_constrs (b_model b) =
        cs1 @
        map (\<lambda>c. \<lparr>c_name = Cap_name c, c_lhs = cap_terms sizes (b_x b) c, c_rhs = RhsConst X\<rparr>)
          (filter (\<lambda>c. cap_terms sizes (b_x b) c \<noteq> []) (py_range C)) \<and>
        map (named_constr (m_vars (b_model b))) cs1 =
          concat (map (\<lambda>r. links_of eps r @ assign_of eps r) rs))"
proof -
  from assms obtain b0 b1 b2 where
    l0: "init_bstate lib C = Inr b0" and
    l1: "for_loop rs (request_body lib sizes eps) b0 = Inr b1" and
    l2: "for_loop (py_range C) (cap_body lib X) b1 = Inr b2" and
    b: "b = b2\<lparr>b_model := (b_model b2)\<lparr>m_sense := MAXIMIZE\<rparr>\<rparr>"
    by (auto simp: build_loops_def calling_def split: sum.splits option.splits)
  note i0 = binv_init [OF l0, of sizes]
  then have "binv C sizes b0" by simp
  note r1 = request_loop [OF this l1]
  then have "binv C sizes b1" by simp
  note r2 = cap_loop [OF this l2]
  have init: "map fst (b_x b0) = []"
    "filter is_serving (m_vars (b_model b0)) = []"
    "named_constrs (b_model b0) = []"
    using i0 by (simp_all add: new_model_def created_model_def named_constrs_def)
  from r2 have 1: "binv C sizes b" unfolding b by (intro binv_sense) simp
  have 2: "map fst (b_x b) = first_occurrences (wanted_pairs eps rs)"
    using r1 r2 init by (simp add: b first_occurrences_def)
  have 3: "filter is_serving (m_vars (b_model b)) = concat (map (serving_of eps) rs)"
    using r1 r2 init by (simp add: b)
  have 4: "m_constrs (b_model b) =
        m_constrs (b_model b1) @
        map (\<lambda>c. \<lparr>c_name = Cap_name c, c_lhs = cap_terms sizes (b_x b) c, c_rhs = RhsConst X\<rparr>)
          (filter (\<lambda>c. cap_terms sizes (b_x b) c \<noteq> []) (py_range C))"
    using r2 by (simp add: b)
  have 5: "map (named_constr (m_vars (b_model b))) (m_constrs (b_model b1)) =
          concat (map (\<lambda>r. links_of eps r @ assign_of eps r) rs)"
    using r1 r2 init by (simp add: b named_constrs_def)
  from 1 2 3 4 5 r1 show ?thesis by (auto simp: b)
qed

lemma fold_add_key_set: "set (fold add_key ks acc) = set acc \<union> set ks"
  by (induction ks arbitrary: acc) (auto simp: add_key_def)

lemma fold_add_key_distinct: "distinct acc \<Longrightarrow> distinct (fold add_key ks acc)"
  by (induction ks arbitrary: acc) (auto simp: add_key_def)

lemma set_first_occurrences: "set (first_occurrences ks) = set ks"
  by (simp add: first_occurrences_def fold_add_key_set)

lemma distinct_first_occurrences: "distinct (first_occurrences ks)"
  by (simp add: first_occurrences_def fold_add_key_distinct)

lemma filter_names_links:
  "filter (\<lambda>n. is_link (fst n)) (links_of eps r) = links_of eps r"
  "filter (\<lambda>n. is_assign (fst n)) (links_of eps r) = []"
  "filter (\<lambda>n. is_cap (fst n)) (links_of eps r) = []"
  by (auto simp: links_of_def is_link_def is_assign_def is_cap_def filter_empty_conv
      intro!: filter_True)

lemma filter_names_assign:
  "filter (\<lambda>n. is_link (fst n)) (assign_of eps r) = []"
  "filter (\<lambda>n. is_assign (fst n)) (assign_of eps r) = assign_of eps r"
  "filter (\<lambda>n. is_cap (fst n)) (assign_of eps r) = []"
  by (simp_all add: assign_of_def is_link_def is_assign_def is_cap_def)

lemma filter_requests_constrs:
  "filter (\<lambda>n. is_link (fst n)) (concat (map (\<lambda>r. links_of eps r @ assign_of eps r) rs)) =
     concat (map (links_of eps) rs)"
  "filter (\<lambda>n. is_assign (fst n)) (concat (map (\<lambda>r. links_of eps r @ assign_of eps r) rs)) =
     concat (map (assign_of eps) rs)"
  "filter (\<lambda>n. is_cap (fst n)) (concat (map (\<lambda>r. links_of eps r @ assign_of eps r) rs)) = []"
  by (induction rs) (simp_all add: filter_names_links filter_names_assign)

lemma filter_named:
  "filter (\<lambda>n. P (fst n)) (map (named_constr vars) cs) =
     map (named_constr vars) (filter (\<lambda>cn. P (c_name cn)) cs)"
  by (induction cs) (simp_all add: named_constr_def)

lemma filter_caps:
  "filter (\<lambda>cn. is_cap (c_name cn)) (map (\<lambda>c. \<lparr>c_name = Cap_name c, c_lhs = f c, c_rhs = g c\<rparr>) cs) =
     map (\<lambda>c. \<lparr>c_name = Cap_name c, c_lhs = f c, c_rhs = g c\<rparr>) cs"
  "filter (\<lambda>cn. is_link (c_name cn)) (map (\<lambda>c. \<lparr>c_name = Cap_name c, c_lhs = f c, c_rhs = g c\<rparr>) cs) = []"
  "filter (\<lambda>cn. is_assign (c_name cn)) (map (\<lambda>c. \<lparr>c_name = Cap_name c, c_lhs = f c, c_rhs = g c\<rparr>) cs) = []"
  by (induction cs) (simp_all add: is_cap_def is_link_def is_assign_def)

text \<open>The constraints of a built model, kind by kind.\<close>

lemma build_loops_constrs:
  assumes "build_loops lib C X sizes eps rs = Inr b"
  shows "filter (\<lambda>n. is_link (fst n)) (named_constrs (b_model b)) = concat (map (links_of eps) rs)"
    and "filter (\<lambda>n. is_assign (fst n)) (named_constrs (b_model b)) =
           concat (map (assign_of eps) rs)"
    and "filter (\<lambda>cn. is_cap (c_name cn)) (m_constrs (b_model b)) =
           map (\<lambda>c. \<lparr>c_name = Cap_name c, c_lhs = cap_terms sizes (b_x b) c,
                      c_rhs = RhsConst X\<rparr>)
             (filter (\<lambda>c. cap_terms sizes (b_x b) c \<noteq> []) (py_range C))"
proof -
  let ?caps = "map (\<lambda>c. \<lparr>c_name = Cap_name c, c_lhs = cap_terms sizes (b_x b) c,
                      c_rhs = RhsConst X\<rparr>)
             (filter (\<lambda>c. cap_terms sizes (b_x b) c \<noteq> []) (py_range C))"
  from build_loops_result [OF assms] obtain cs1 where
    cs: "m_constrs (b_model b) = cs1 @ ?caps" and
    named: "map (named_constr (m_vars (b_model b))) cs1 =
          concat (map (\<lambda>r. links_of eps r @ assign_of eps r) rs)"
    by blast
  have l: "map (named_constr (m_vars (b_model b))) (filter (\<lambda>cn. is_link (c_name cn)) cs1) =
      concat (map (links_of eps) rs)"
    using named filter_named [of is_link "m_vars (b_model b)" cs1]
    by (simp add: filter_requests_constrs)
  have a: "map (named_constr (m_vars (b_model b))) (filter (\<lambda>cn. is_assign (c_name cn)) cs1) =
      concat (map (assign_of eps) rs)"
    using named filter_named [of is_assign "m_vars (b_model b)" cs1]
    by (simp add: filter_requests_constrs)
  have "map (named_constr (m_vars (b_model b))) (filter (\<lambda>cn. is_cap (c_name cn)) cs1) = []"
    using named filter_named [of is_cap "m_vars (b_model b)" cs1]
    by (simp add: filter_requests_constrs)
  then have c: "filter (\<lambda>cn. is_cap (c_name cn)) cs1 = []" by simp
  show "filter (\<lambda>n. is_link (fst n)) (named_constrs (b_model b)) = concat (map (links_of eps) rs)"
    unfolding named_constrs_def filter_named cs using l by (simp add: filter_caps)
  show "filter (\<lambda>n. is_assign (fst n)) (named_constrs (b_model b)) =
           concat (map (assign_of eps) rs)"
    unfolding named_constrs_def filter_named cs using a by (simp add: filter_caps)
  show "filter (\<lambda>cn. is_cap (c_name cn)) (m_constrs (b_model b)) = ?caps"
    unfolding cs using c by (simp add: filter_caps)
qed

lemma py_index_Inr_iff:
  "(\<exists>x. py_index xs i = Inr x) \<longleftrightarrow> - int (length xs) \<le> i \<and> i < int (length xs)"
  by (auto simp: py_index_def)

lemma py_index_Inl: "py_index xs i = Inl e \<Longrightarrow> e = IndexError"
  by (auto simp: py_index_def split: if_splits)

lemma calling_Inl:
  assumes "calling lib m c k = Inl e"
  shows "raised_by lib e \<or> k = Inl e"
  using assms by (auto simp: calling_def raised_by_def split: option.splits)

lemma addVar_Inl: "addVar lib v m = Inl e \<Longrightarrow> raised_by lib e"
  by (auto simp: addVar_def dest: calling_Inl)

lemma addConstr_Inl: "addConstr lib c m = Inl e \<Longrightarrow> raised_by lib e"
  by (auto simp: addConstr_def dest: calling_Inl)

lemma ensure_x_Inl:
  "ensure_x lib vid cid sizes b = Inl e \<Longrightarrow> e = KeyError \<or> e = IndexError \<or> raised_by lib e"
  by (auto simp: ensure_x_def Let_def split: if_splits option.splits sum.splits prod.splits
      dest: py_index_Inl addVar_Inl calling_Inl)

lemma cache_body_Inl:
  "cache_body lib r ld_e sizes item st = Inl e \<Longrightarrow>
     e = KeyError \<or> e = IndexError \<or> raised_by lib e"
  by (auto simp: cache_body_def Let_def
      split: prod.splits if_splits option.splits sum.splits
      dest: ensure_x_Inl addVar_Inl addConstr_Inl)

lemma request_body_Inl:
  assumes "request_body lib sizes eps r b = Inl e"
  shows "e = KeyError \<or> e = IndexError \<or> raised_by lib e"
proof (cases "py_index eps (endpoint r)")
  case (Inl e')
  with assms show ?thesis by (auto simp: request_body_def dest: py_index_Inl)
next
  case (Inr ep)
  show ?thesis
  proof (cases "for_loop (caches ep) (cache_body lib r (ld ep) sizes) (b, [])")
    case (Inl e')
    with assms Inr have "e' = e" by (simp add: request_body_def)
    with Inl show ?thesis
      by (auto elim!: for_loop_error
          [where P = "\<lambda>e. e = KeyError \<or> e = IndexError \<or> raised_by lib e"]
          dest: cache_body_Inl)
  next
    case loop: (Inr st)
    with assms Inr show ?thesis
      by (auto simp: request_body_def split: prod.splits if_splits sum.splits
          dest!: calling_Inl dest: addConstr_Inl)
  qed
qed

lemma cap_body_Inl:
  "cap_body lib X c b = Inl e \<Longrightarrow> e = KeyError \<or> e = IndexError \<or> raised_by lib e"
  by (auto simp: cap_body_def split: option.splits if_splits sum.splits
      dest!: calling_Inl dest: addConstr_Inl)

lemma init_bstate_Inl:
  assumes "init_bstate lib C = Inl e"
  shows "raised_by lib e"
proof -
  from assms have "for_loop (py_range C) (new_linexpr lib) Map.empty = Inl e"
    by (auto simp: init_bstate_def split: sum.splits)
  then show ?thesis
    by (rule for_loop_error) (auto simp: new_linexpr_def dest: calling_Inl)
qed

lemma build_loops_Inl:
  assumes "build_loops lib C X sizes eps rs = Inl e"
  shows "e = KeyError \<or> e = IndexError \<or> raised_by lib e"
proof (cases "init_bstate lib C")
  case (Inl e')
  with assms have "e' = e" by (simp add: build_loops_def)
  with Inl show ?thesis by (auto dest: init_bstate_Inl)
next
  case (Inr b0)
  show ?thesis
  proof (cases "for_loop rs (request_body lib sizes eps) b0")
    case (Inl e')
    with assms Inr have "e' = e" by (simp add: build_loops_def)
    with Inl show ?thesis
      by (auto elim!: for_loop_error
          [where P = "\<lambda>e. e = KeyError \<or> e = IndexError \<or> raised_by lib e"]
          dest: request_body_Inl)
  next
    case l1: (Inr b1)
    show ?thesis
    proof (cases "for_loop (py_range C) (cap_body lib X) b1")
      case (Inl e')
      with assms Inr l1 have "e' = e" by (simp add: build_loops_def)
      with Inl show ?thesis
        by (auto elim!: for_loop_error
            [where P = "\<lambda>e. e = KeyError \<or> e = IndexError \<or> raised_by lib e"]
            dest: cap_body_Inl)
    next
      case l2: (Inr b2)
      with assms Inr l1 show ?thesis
        by (auto simp: build_loops_def dest: calling_Inl)
    qed
  qed
qed

lemma build_loops_in_range:
  assumes "build_loops lib C X sizes eps rs = Inr b" and "r \<in> set rs"
  shows "\<not> out_of_range C sizes eps r"
proof -
  note res = build_loops_result [OF assms(1)]
  from res assms(2) have "\<exists>ep. py_index eps (endpoint r) = Inr ep" by blast
  then have ep: "- int (length eps) \<le> endpoint r \<and> endpoint r < int (length eps)"
    by (simp add: py_index_Inr_iff)
  have "0 \<le> fst item \<and> fst item < C \<and> - int (length sizes) \<le> video r \<and>
      video r < int (length sizes)"
    if "item \<in> set (eligible (endpoint_of eps r))" for item
  proof -
    from that assms(2) have "(video r, fst item) \<in> set (wanted_pairs eps rs)"
      by (force simp: wanted_pairs_def split_def)
    with res have "(video r, fst item) \<in> set (map fst (b_x b))"
      by (simp add: set_first_occurrences)
    then obtain i where "((video r, fst item), i) \<in> set (b_x b)" by auto
    with res have "fst item \<in> set (py_range C) \<and> (\<exists>sz. py_index sizes (video r) = Inr sz)"
      by (auto simp: binv_def list_all_iff)
    then show ?thesis by (simp add: set_py_range py_index_Inr_iff)
  qed
  then have "\<forall>item \<in> set (eligible (endpoint_of eps r)).
      \<not> (fst item < 0 \<or> C \<le> fst item \<or> video r < - int (length sizes) \<or>
         int (length sizes) \<le> video r)"
    by (meson not_le not_less)
  with ep show ?thesis unfolding out_of_range_def by (meson not_le not_less)
qed

subsection \<open>The small instance, evaluated\<close>

lemmas build_eval = build_loops_def init_bstate_def new_linexpr_def new_model_def
  created_model_def request_body_def cache_body_def ensure_x_def cap_body_def addVar_def
  addConstr_def calling_def quiet_def py_index_def py_range_def upto.simps quicksum_def
  MAXIMIZE_def demo_sizes_def demo_endpoints_def demo_requests_def Let_def

lemmas spec_eval = serving_of_def links_of_def assign_of_def wanted_pairs_def eligible_def
  endpoint_of_def size_of_def cap_terms_def first_occurrences_def add_key_def placement_var_def
  py_index_def py_range_def upto.simps demo_sizes_def demo_endpoints_def demo_requests_def

lemma demo_builds: "\<exists>b. build_loops quiet 2 10 demo_sizes demo_endpoints demo_requests = Inr b"
  by (simp add: build_eval)

subsection \<open>Claim C4: eligibility and savings\<close>

text \<open>
  C4. When the model is built, its serving variables are, in the order of their creation,
  one for each request and each cache of the request's endpoint with \<open>lc < ld\<close>, named after
  the request and the cache, with objective coefficient \<open>(ld - lc) * n\<close>; a cache with
  \<open>lc \<ge> ld\<close> gives none. The sense of the model is to maximize, and the placement variables
  have coefficient 0, so the objective is the sum of the savings. The pairs that have a
  placement variable are the pairs (video, cache) of a request and an eligible cache: a
  pair with \<open>lc \<ge> ld\<close> brings no placement variable.
\<close>

theorem serving_variables:
  assumes "build_loops lib C X video_sizes endpoints requests = Inr b"
  shows "filter is_serving (m_vars (b_model b)) = concat (map (serving_of endpoints) requests) \<and>
     m_sense (b_model b) = MAXIMIZE \<and>
     filter is_placement (m_vars (b_model b)) = map placement_var (map fst (b_x b)) \<and>
     set (map fst (b_x b)) = set (wanted_pairs endpoints requests)"
proof -
  note res = build_loops_result [OF assms]
  then have "filter is_placement (m_vars (b_model b)) = map (\<lambda>(p, i). placement_var p) (b_x b)"
    by (simp add: binv_def)
  then have "filter is_placement (m_vars (b_model b)) = map placement_var (map fst (b_x b))"
    by (simp add: split_def)
  with res show ?thesis by (simp add: set_first_occurrences)
qed

theorem serving_variables_witness:
  "\<exists>b. build_loops quiet 2 10 demo_sizes demo_endpoints demo_requests = Inr b \<and>
     filter is_serving (m_vars (b_model b)) =
       [\<lparr>v_name = Y_name 0 0, v_type = BINARY, v_obj = 270\<rparr>,
        \<lparr>v_name = Y_name 1 0, v_type = BINARY, v_obj = 180\<rparr>,
        \<lparr>v_name = Y_name 2 0, v_type = BINARY, v_obj = 30\<rparr>] \<and>
     m_sense (b_model b) = - 1 \<and>
     set (map fst (b_x b)) = {(0, 0), (1, 0)}"
proof -
  from demo_builds obtain b where
    b: "build_loops quiet 2 10 demo_sizes demo_endpoints demo_requests = Inr b" ..
  from serving_variables [OF b] have
    "filter is_serving (m_vars (b_model b)) =
       [\<lparr>v_name = Y_name 0 0, v_type = BINARY, v_obj = 270\<rparr>,
        \<lparr>v_name = Y_name 1 0, v_type = BINARY, v_obj = 180\<rparr>,
        \<lparr>v_name = Y_name 2 0, v_type = BINARY, v_obj = 30\<rparr>] \<and>
     m_sense (b_model b) = - 1 \<and>
     set (map fst (b_x b)) = {(0, 0), (1, 0)}"
    by (auto simp: spec_eval MAXIMIZE_def)
  with b show ?thesis by blast
qed

subsection \<open>Claim C5: one placement variable for each pair\<close>

text \<open>
  C5. When the model is built, the dictionary \<^verbatim>\<open>x\<close> has one key for each distinct
  (video, cache) pair that is eligible for at least one request, in the order in which the
  requests first need them; the placement variables of the model are exactly one for each
  key, and the key is bound to that variable. Every request that refers to the pair uses
  this variable: its linking constraint is \<open>y[r,c] \<le> x[v,c]\<close>. The capacity expression of
  every cache has one term per key on that cache, the variable with the size of the video
  as coefficient.
\<close>

theorem placement_variables_shared:
  assumes "build_loops lib C X video_sizes endpoints requests = Inr b"
  shows "map fst (b_x b) = first_occurrences (wanted_pairs endpoints requests) \<and>
     distinct (map fst (b_x b)) \<and>
     set (map fst (b_x b)) = set (wanted_pairs endpoints requests) \<and>
     filter is_placement (m_vars (b_model b)) = map placement_var (map fst (b_x b)) \<and>
     list_all (\<lambda>(p, i). var_named (m_vars (b_model b)) i = Some (X_name (fst p) (snd p)))
       (b_x b) \<and>
     filter (\<lambda>n. is_link (fst n)) (named_constrs (b_model b)) =
       concat (map (links_of endpoints) requests) \<and>
     (\<forall>c \<in> set (py_range C). b_capacity b c = Some (cap_terms video_sizes (b_x b) c))"
proof -
  note res = build_loops_result [OF assms]
  then have inv: "binv C video_sizes b" by simp
  from inv have "filter is_placement (m_vars (b_model b)) =
      map (\<lambda>(p, i). placement_var p) (b_x b)"
    by (simp add: binv_def)
  then have 1: "filter is_placement (m_vars (b_model b)) = map placement_var (map fst (b_x b))"
    by (simp add: split_def)
  from inv have 2: "list_all
      (\<lambda>(p, i). var_named (m_vars (b_model b)) i = Some (X_name (fst p) (snd p))) (b_x b)"
    by (auto simp: binv_def list_all_iff var_named_def placement_var_def)
  from inv have 3: "\<forall>c \<in> set (py_range C).
      b_capacity b c = Some (cap_terms video_sizes (b_x b) c)"
    by (simp add: binv_def)
  from inv have 4: "distinct (map fst (b_x b))" by (simp add: binv_def)
  from res 1 2 3 4 build_loops_constrs(1) [OF assms] show ?thesis
    by (simp add: set_first_occurrences)
qed

theorem placement_variables_shared_witness:
  "\<exists>b. build_loops quiet 2 10 demo_sizes demo_endpoints demo_requests = Inr b \<and>
     b_x b = [((0, 0), 0), ((1, 0), 2)] \<and>
     filter is_placement (m_vars (b_model b)) =
       [\<lparr>v_name = X_name 0 0, v_type = BINARY, v_obj = 0\<rparr>,
        \<lparr>v_name = X_name 1 0, v_type = BINARY, v_obj = 0\<rparr>] \<and>
     var_named (m_vars (b_model b)) 0 = Some (X_name 0 0) \<and>
     var_named (m_vars (b_model b)) 2 = Some (X_name 1 0) \<and>
     filter (\<lambda>n. is_link (fst n)) (named_constrs (b_model b)) =
       [(Link_name 0 0, [(1, Some (Y_name 0 0))], Inl (Some (X_name 0 0))),
        (Link_name 1 0, [(1, Some (Y_name 1 0))], Inl (Some (X_name 1 0))),
        (Link_name 2 0, [(1, Some (Y_name 2 0))], Inl (Some (X_name 0 0)))] \<and>
     b_capacity b 0 = Some [(5, 0), (7, 2)] \<and> b_capacity b 1 = Some []"
proof -
  from demo_builds obtain b where
    b: "build_loops quiet 2 10 demo_sizes demo_endpoints demo_requests = Inr b" ..
  then have x: "b_x b = [((0, 0), 0), ((1, 0), 2)]"
    by (auto simp: build_eval)
  from placement_variables_shared [OF b] x have
    "filter is_placement (m_vars (b_model b)) =
       [\<lparr>v_name = X_name 0 0, v_type = BINARY, v_obj = 0\<rparr>,
        \<lparr>v_name = X_name 1 0, v_type = BINARY, v_obj = 0\<rparr>] \<and>
     var_named (m_vars (b_model b)) 0 = Some (X_name 0 0) \<and>
     var_named (m_vars (b_model b)) 2 = Some (X_name 1 0) \<and>
     filter (\<lambda>n. is_link (fst n)) (named_constrs (b_model b)) =
       [(Link_name 0 0, [(1, Some (Y_name 0 0))], Inl (Some (X_name 0 0))),
        (Link_name 1 0, [(1, Some (Y_name 1 0))], Inl (Some (X_name 1 0))),
        (Link_name 2 0, [(1, Some (Y_name 2 0))], Inl (Some (X_name 0 0)))] \<and>
     b_capacity b 0 = Some [(5, 0), (7, 2)] \<and> b_capacity b 1 = Some []"
    by (simp add: spec_eval)
  with b x show ?thesis by blast
qed

subsection \<open>Claim C6: the capacity constraints\<close>

text \<open>
  C6. When the model is built, the capacity expression of every cache \<open>c\<close> of
  \<^verbatim>\<open>range(C)\<close> is the sum, over the placement variables materialized on \<open>c\<close>, of the
  variable times the size of its video; and the capacity constraints of the model are, for
  each cache of \<^verbatim>\<open>range(C)\<close> whose expression has at least one term, in ascending
  order, the constraint \<open>expression \<le> X\<close>, and none for a cache whose expression is empty.
\<close>

theorem capacity_constraints:
  assumes "build_loops lib C X video_sizes endpoints requests = Inr b"
  shows "(\<forall>c \<in> set (py_range C). b_capacity b c = Some (cap_terms video_sizes (b_x b) c)) \<and>
     filter (\<lambda>cn. is_cap (c_name cn)) (m_constrs (b_model b)) =
       map (\<lambda>c. \<lparr>c_name = Cap_name c, c_lhs = cap_terms video_sizes (b_x b) c,
                  c_rhs = RhsConst X\<rparr>)
         (filter (\<lambda>c. cap_terms video_sizes (b_x b) c \<noteq> []) (py_range C))"
proof -
  from build_loops_result [OF assms] have "binv C video_sizes b" by simp
  then have "\<forall>c \<in> set (py_range C).
      b_capacity b c = Some (cap_terms video_sizes (b_x b) c)"
    by (simp add: binv_def)
  with build_loops_constrs(3) [OF assms] show ?thesis by simp
qed

theorem capacity_constraints_witness:
  "\<exists>b. build_loops quiet 2 10 demo_sizes demo_endpoints demo_requests = Inr b \<and>
     b_capacity b 0 = Some [(5, 0), (7, 2)] \<and> b_capacity b 1 = Some [] \<and>
     filter (\<lambda>cn. is_cap (c_name cn)) (m_constrs (b_model b)) =
       [\<lparr>c_name = Cap_name 0, c_lhs = [(5, 0), (7, 2)], c_rhs = RhsConst 10\<rparr>]"
proof -
  from demo_builds obtain b where
    b: "build_loops quiet 2 10 demo_sizes demo_endpoints demo_requests = Inr b" ..
  then have x: "b_x b = [((0, 0), 0), ((1, 0), 2)]"
    by (auto simp: build_eval)
  from capacity_constraints [OF b] x have
    "b_capacity b 0 = Some [(5, 0), (7, 2)] \<and> b_capacity b 1 = Some [] \<and>
     filter (\<lambda>cn. is_cap (c_name cn)) (m_constrs (b_model b)) =
       [\<lparr>c_name = Cap_name 0, c_lhs = [(5, 0), (7, 2)], c_rhs = RhsConst 10\<rparr>]"
    by (simp add: spec_eval)
  with b show ?thesis by blast
qed

subsection \<open>Claim C7: the assignment constraints\<close>

text \<open>
  C7. When the model is built, its assignment constraints are, in the order of the
  requests, one for each request that has at least one serving variable: the sum of the
  serving variables of that request is at most 1. A request without eligible cache has no
  assignment constraint.
\<close>

theorem assignment_constraints:
  assumes "build_loops lib C X video_sizes endpoints requests = Inr b"
  shows "filter (\<lambda>n. is_assign (fst n)) (named_constrs (b_model b)) =
     concat (map (assign_of endpoints) requests)"
  using build_loops_constrs(2) [OF assms] .

theorem assignment_constraints_witness:
  "\<exists>b. build_loops quiet 1 10 [5] [\<lparr>ld = 100, caches = [(0, 10)]\<rparr>, \<lparr>ld = 5, caches = [(0, 10)]\<rparr>]
          [\<lparr>req_id = 0, video = 0, endpoint = 0, count = 3\<rparr>,
           \<lparr>req_id = 1, video = 0, endpoint = 1, count = 4\<rparr>] = Inr b \<and>
     filter (\<lambda>n. is_assign (fst n)) (named_constrs (b_model b)) =
       [(Assign_name 0, [(1, Some (Y_name 0 0))], Inr 1)]"
proof -
  have "\<exists>b. build_loops quiet 1 10 [5]
          [\<lparr>ld = 100, caches = [(0, 10)]\<rparr>, \<lparr>ld = 5, caches = [(0, 10)]\<rparr>]
          [\<lparr>req_id = 0, video = 0, endpoint = 0, count = 3\<rparr>,
           \<lparr>req_id = 1, video = 0, endpoint = 1, count = 4\<rparr>] = Inr b"
    by (simp add: build_eval)
  then obtain b where
    b: "build_loops quiet 1 10 [5] [\<lparr>ld = 100, caches = [(0, 10)]\<rparr>, \<lparr>ld = 5, caches = [(0, 10)]\<rparr>]
          [\<lparr>req_id = 0, video = 0, endpoint = 0, count = 3\<rparr>,
           \<lparr>req_id = 1, video = 0, endpoint = 1, count = 4\<rparr>] = Inr b" ..
  from assignment_constraints [OF b] have
    "filter (\<lambda>n. is_assign (fst n)) (named_constrs (b_model b)) =
       [(Assign_name 0, [(1, Some (Y_name 0 0))], Inr 1)]"
    by (simp add: spec_eval)
  with b show ?thesis by blast
qed

subsection \<open>Claim C10: ids out of range\<close>

text \<open>
  The wrapper and the loops: \<^const>\<open>build_model\<close> returns exactly when no call into the
  library raises and \<^const>\<open>build_loops\<close> returns, with the model and the dictionary of the
  loops; and an exception of \<^const>\<open>build_model\<close> is one of the loops or one of the library.
\<close>

lemma build_model_Inr:
  assumes "fst (build_model lib V E R C X sizes eps rs w) = Inr res"
  shows "\<exists>b. build_loops lib C X sizes eps rs = Inr b \<and> res = (b_model b, b_x b)"
  using assms
  by (auto simp: build_model_def Let_def split: option.splits sum.splits)

lemma set_params_Inl: "set_params lib = Inl e \<Longrightarrow> raised_by lib e"
  by (auto simp: set_params_def dest!: calling_Inl)

lemma build_model_Inl:
  assumes "fst (build_model lib V E R C X sizes eps rs w) = Inl e"
  shows "e = KeyError \<or> e = IndexError \<or> raised_by lib e"
proof (cases "env_raises lib")
  case (Some e')
  with assms show ?thesis by (auto simp: build_model_def raised_by_def)
next
  case env: None
  show ?thesis
  proof (cases "model_raises lib")
    case (Some e')
    with assms env show ?thesis by (auto simp: build_model_def Let_def raised_by_def)
  next
    case model: None
    show ?thesis
    proof (cases "set_params lib")
      case (Inl e')
      with assms env model set_params_Inl [OF Inl] show ?thesis
        by (auto simp: build_model_def Let_def)
    next
      case params: (Inr m0)
      show ?thesis
      proof (cases "build_loops lib C X sizes eps rs")
        case (Inl e')
        with assms env model params build_loops_Inl [OF Inl] show ?thesis
          by (auto simp: build_model_def Let_def)
      next
        case (Inr b)
        with assms env model params show ?thesis
          by (auto simp: build_model_def Let_def raised_by_def split: option.splits)
      qed
    qed
  qed
qed

text \<open>A failure of the acquisition itself: what is allocated when it leaves the function.\<close>

lemma build_model_env_raises:
  "env_raises lib = Some e \<Longrightarrow>
     build_model lib V E R C X sizes eps rs w = (Inl e, w)"
  by (simp add: build_model_def)

lemma build_model_model_raises:
  "env_raises lib = None \<Longrightarrow> model_raises lib = Some e \<Longrightarrow>
     build_model lib V E R C X sizes eps rs w = (Inl e, w\<lparr>env_st := Live\<rparr>)"
  by (simp add: build_model_def)

lemma not_raised_by_quiet: "\<not> raised_by quiet e"
  by (simp add: raised_by_def quiet_def)

text \<open>
  C10 (as amended). The reader validates no id: every well-formed text is accepted,
  whatever its cache, video and endpoint ids. In \<^verbatim>\<open>build_model\<close>, a request whose
  endpoint id is outside \<open>[-E, E)\<close>, or that has an eligible cache whose id is outside
  \<open>[0, C)\<close>, or that has an eligible cache while its video id is outside \<open>[-V, V)\<close>, keeps
  the function from returning: it raises, and the exception is \<^verbatim>\<open>KeyError\<close> or
  \<^verbatim>\<open>IndexError\<close> unless it is one that a call into the solver library raises. A
  negative endpoint or video id from \<open>-E\<close> or \<open>-V\<close> on is by itself no error: the lists
  are indexed from their end.
\<close>

theorem out_of_range_ids:
  "(well_formed V E R sizes blocks reqs \<longrightarrow>
      lire_instance (instance_lines V E R C X sizes blocks reqs @ extra) =
        Inr (V, E, R, C, X, sizes, map block_endpoint blocks, numbered_requests reqs)) \<and>
   ((\<exists>r \<in> set requests. out_of_range C' video_sizes endpoints r) \<longrightarrow>
      (\<exists>e. fst (build_model lib V' E' R' C' X' video_sizes endpoints requests w) = Inl e \<and>
           (e = KeyError \<or> e = IndexError \<or> raised_by lib e)))"
proof (intro conjI impI)
  assume "well_formed V E R sizes blocks reqs"
  then show "lire_instance (instance_lines V E R C X sizes blocks reqs @ extra) =
        Inr (V, E, R, C, X, sizes, map block_endpoint blocks, numbered_requests reqs)"
    by (rule lire_instance_accepts)
next
  assume bad: "\<exists>r \<in> set requests. out_of_range C' video_sizes endpoints r"
  show "\<exists>e. fst (build_model lib V' E' R' C' X' video_sizes endpoints requests w) = Inl e \<and>
           (e = KeyError \<or> e = IndexError \<or> raised_by lib e)"
  proof (cases "fst (build_model lib V' E' R' C' X' video_sizes endpoints requests w)")
    case (Inl e)
    with build_model_Inl [OF Inl] show ?thesis by simp
  next
    case (Inr res)
    from build_model_Inr [OF Inr] obtain b where
      "build_loops lib C' X' video_sizes endpoints requests = Inr b" by blast
    with bad build_loops_in_range show ?thesis by blast
  qed
qed

theorem out_of_range_ids_witness:
  "well_formed 1 1 1 [5] [(100, 1, [(3, 10)])] [(0, 0, 3)] \<and>
   lire_instance
     [[IntTok 1, IntTok 1, IntTok 1, IntTok 1, IntTok 10], [IntTok 5],
      [IntTok 100, IntTok 1], [IntTok 3, IntTok 10], [IntTok 0, IntTok 0, IntTok 3]] =
     Inr (1, 1, 1, 1, 10, [5], [\<lparr>ld = 100, caches = [(3, 10)]\<rparr>],
          [\<lparr>req_id = 0, video = 0, endpoint = 0, count = 3\<rparr>]) \<and>
   out_of_range 1 [5] [\<lparr>ld = 100, caches = [(3, 10)]\<rparr>]
     \<lparr>req_id = 0, video = 0, endpoint = 0, count = 3\<rparr> \<and>
   fst (build_model quiet 1 1 1 1 10 [5] [\<lparr>ld = 100, caches = [(3, 10)]\<rparr>]
          [\<lparr>req_id = 0, video = 0, endpoint = 0, count = 3\<rparr>] (world0 Map.empty)) =
     Inl KeyError"
proof -
  have wf: "well_formed 1 1 1 [5] [(100, 1, [(3, 10)])] [(0, 0, 3)]"
    by (simp add: well_formed_def block_ok_def)
  have bad: "out_of_range 1 [5] [\<lparr>ld = 100, caches = [(3, 10)]\<rparr>]
      \<lparr>req_id = 0, video = 0, endpoint = 0, count = 3\<rparr>"
    by (simp add: out_of_range_def eligible_def endpoint_of_def py_index_def)
  have key: "fst (build_model quiet 1 1 1 1 10 [5] [\<lparr>ld = 100, caches = [(3, 10)]\<rparr>]
          [\<lparr>req_id = 0, video = 0, endpoint = 0, count = 3\<rparr>] (world0 Map.empty)) \<noteq>
     Inl IndexError"
    by (simp add: build_model_def set_params_def build_eval)
  note a = out_of_range_ids [of 1 1 1 "[5]" "[(100, 1, [(3, 10)])]" "[(0, 0, 3)]" 1 10 "[]"
      "[\<lparr>req_id = 0, video = 0, endpoint = 0, count = 3\<rparr>]" 1 "[5]"
      "[\<lparr>ld = 100, caches = [(3, 10)]\<rparr>]" quiet 1 1 1 10 "world0 Map.empty"]
  from a wf have 1: "lire_instance
     [[IntTok 1, IntTok 1, IntTok 1, IntTok 1, IntTok 10], [IntTok 5],
      [IntTok 100, IntTok 1], [IntTok 3, IntTok 10], [IntTok 0, IntTok 0, IntTok 3]] =
     Inr (1, 1, 1, 1, 10, [5], [\<lparr>ld = 100, caches = [(3, 10)]\<rparr>],
          [\<lparr>req_id = 0, video = 0, endpoint = 0, count = 3\<rparr>])"
    by (simp add: instance_lines_def block_lines_def connection_line_def request_line_def
        block_endpoint_def numbered_requests_def numbered_request_def)
  from a bad obtain e where
    "fst (build_model quiet 1 1 1 1 10 [5] [\<lparr>ld = 100, caches = [(3, 10)]\<rparr>]
          [\<lparr>req_id = 0, video = 0, endpoint = 0, count = 3\<rparr>] (world0 Map.empty)) = Inl e"
    "e = KeyError \<or> e = IndexError \<or> raised_by quiet e"
    by auto
  with key have 2: "fst (build_model quiet 1 1 1 1 10 [5] [\<lparr>ld = 100, caches = [(3, 10)]\<rparr>]
          [\<lparr>req_id = 0, video = 0, endpoint = 0, count = 3\<rparr>] (world0 Map.empty)) =
     Inl KeyError"
    by (auto simp: not_raised_by_quiet)
  from wf 1 bad 2 show ?thesis by blast
qed

text \<open>
  C10 as stated fails: this request has the endpoint id \<open>-1\<close> and the video id \<open>-1\<close>,
  both outside \<open>[0, E)\<close> and \<open>[0, V)\<close> and both used by the builder, and, no call into
  the library raising, the model is built: the ids address the last endpoint and the last
  video.
\<close>

theorem negative_ids_counterexample:
  "lire_instance
     [[IntTok 1, IntTok 1, IntTok 1, IntTok 1, IntTok 10], [IntTok 5],
      [IntTok 100, IntTok 1], [IntTok 0, IntTok 10], [IntTok (- 1), IntTok (- 1), IntTok 3]] =
     Inr (1, 1, 1, 1, 10, [5], [\<lparr>ld = 100, caches = [(0, 10)]\<rparr>],
          [\<lparr>req_id = 0, video = - 1, endpoint = - 1, count = 3\<rparr>]) \<and>
   fst (build_model quiet 1 1 1 1 10 [5] [\<lparr>ld = 100, caches = [(0, 10)]\<rparr>]
          [\<lparr>req_id = 0, video = - 1, endpoint = - 1, count = 3\<rparr>] (world0 Map.empty)) =
     Inr (\<lparr>m_vars = [\<lparr>v_name = X_name (- 1) 0, v_type = BINARY, v_obj = 0\<rparr>,
                      \<lparr>v_name = Y_name 0 0, v_type = BINARY, v_obj = 270\<rparr>],
           m_constrs =
             [\<lparr>c_name = Link_name 0 0, c_lhs = [(1, 1)], c_rhs = RhsVar 0\<rparr>,
              \<lparr>c_name = Assign_name 0, c_lhs = [(1, 1)], c_rhs = RhsConst 1\<rparr>,
              \<lparr>c_name = Cap_name 0, c_lhs = [(5, 0)], c_rhs = RhsConst 10\<rparr>],
           m_sense = - 1, LogToConsole = 1, MIPGap = 5 / 1000\<rparr>,
          [((- 1, 0), 0)])"
  by (simp add: lire_instance_def read_endpoint_def read_cache_def read_request_def
      build_model_def set_params_def build_eval)

section \<open>What the extractor writes\<close>

text \<open>The videos appended to the list of cache \<open>c\<close> by the loop over \<^verbatim>\<open>x.items()\<close>.\<close>

lemma update_tabulated:
  assumes "distinct cs" and "k \<in> set cs"
  shows "AList.update k v (map (\<lambda>c. (c, f c)) cs) = map (\<lambda>c. (c, (f(k := v)) c)) cs"
  using assms by (induction cs) auto

lemma map_of_tabulated: "c \<in> set cs \<Longrightarrow> map_of (map (\<lambda>c. (c, f c)) cs) c = Some (f c)"
  by (induction cs) auto

lemma grouped_Cons:
  "grouped (((vid, cid), i) # rest) xval c =
     (if cid = c \<and> xval i > 1 / 2 then vid # grouped rest xval c else grouped rest xval c)"
  by (simp add: grouped_def)

lemma extract_loop:
  assumes "\<forall>item \<in> set xs. xval (snd item) > 1 / 2 \<longrightarrow> snd (fst item) \<in> set (py_range C)"
  shows "for_loop xs (extract_body xval) (map (\<lambda>c. (c, f c)) (py_range C)) =
     Inr (map (\<lambda>c. (c, f c @ grouped xs xval c)) (py_range C))"
  using assms
proof (induction xs arbitrary: f)
  case Nil
  then show ?case by (simp add: grouped_def)
next
  case (Cons item rest)
  obtain vid cid i where item: "item = ((vid, cid), i)" by (cases item) auto
  from Cons.prems have rest: "\<forall>item \<in> set rest.
      xval (snd item) > 1 / 2 \<longrightarrow> snd (fst item) \<in> set (py_range C)" by simp
  show ?case
  proof (cases "xval i > 1 / 2")
    case False
    then have "extract_body xval item (map (\<lambda>c. (c, f c)) (py_range C)) =
        Inr (map (\<lambda>c. (c, f c)) (py_range C))"
      by (simp add: extract_body_def item)
    with Cons.IH [OF rest, of f] False item show ?thesis by (simp add: grouped_Cons)
  next
    case True
    with Cons.prems item have cid: "cid \<in> set (py_range C)" by simp
    let ?f = "f(cid := f cid @ [vid])"
    have "extract_body xval item (map (\<lambda>c. (c, f c)) (py_range C)) =
        Inr (map (\<lambda>c. (c, ?f c)) (py_range C))"
      using True cid
      by (simp add: extract_body_def item map_of_tabulated update_tabulated distinct_py_range)
    with Cons.IH [OF rest, of ?f] True item show ?thesis by (simp add: grouped_Cons)
  qed
qed

lemma sort_Nil_iff: "sort xs = [] \<longleftrightarrow> xs = []"
  by (metis length_sort length_0_conv)

lemma used_caches_of_tabulated:
  "used_caches_of (map (\<lambda>c. (c, g c)) cs) = map (\<lambda>c. (c, sort (g c))) (filter (\<lambda>c. g c \<noteq> []) cs)"
  by (induction cs) (simp_all add: used_caches_of_def)

lemma write_caches_all:
  assumes "\<forall>c \<in> set keys. map_of used c = Some (g c)"
  shows "write_caches used keys out = (None, out @ concat (map (\<lambda>c. cache_line c (g c)) keys))"
  using assms by (induction keys arbitrary: out) auto

lemma sorted_used_list: "sorted (used_list C x xval)"
  by (auto simp: used_list_def py_range_def intro: sorted_wrt_filter)

lemma resol_restit_writes:
  assumes sol: "optimize model = Solved n xval" and n: "n \<noteq> 0"
    and range: "\<forall>item \<in> set x. xval (snd item) > 1 / 2 \<longrightarrow> snd (fst item) \<in> set (py_range C)"
  shows "resol_restit optimize model x C output_path w =
     (Inr (), w\<lparr>written := written w @ [(output_path, Text (placement_text C x xval))],
                model_st := Disposed, env_st := Disposed\<rparr>)"
proof -
  have loop: "for_loop x (extract_body xval) (map (\<lambda>c. (c, [])) (py_range C)) =
      Inr (map (\<lambda>c. (c, grouped x xval c)) (py_range C))"
    using extract_loop [OF range, of "\<lambda>c. []"] by simp
  have ne: "\<And>c. grouped x xval c \<noteq> [] \<longleftrightarrow> stored_on x xval c \<noteq> []"
    by (simp add: stored_on_def sort_Nil_iff)
  have used: "used_caches_of (map (\<lambda>c. (c, grouped x xval c)) (py_range C)) =
      map (\<lambda>c. (c, stored_on x xval c)) (used_list C x xval)"
    unfolding used_caches_of_tabulated ne used_list_def stored_on_def ..
  have keys: "sort (map (fst \<circ> (\<lambda>c. (c, stored_on x xval c))) (used_list C x xval)) =
      used_list C x xval"
    using sorted_used_list [of C x xval] by (simp add: comp_def sorted_sort_id)
  have wr: "write_caches (map (\<lambda>c. (c, stored_on x xval c)) (used_list C x xval))
        (used_list C x xval) out =
      (None, out @ concat (map (\<lambda>c. cache_line c (stored_on x xval c)) (used_list C x xval)))"
    for out
    by (rule write_caches_all) (simp add: map_of_tabulated)
  have "resol_restit optimize model x C output_path w =
     (Inr (), w\<lparr>written := written w @ [(output_path, Text
         ((str_int (int (length (used_list C x xval))) @ [CHR 0x0A]) @
          concat (map (\<lambda>c. cache_line c (stored_on x xval c)) (used_list C x xval))))],
                model_st := Disposed, env_st := Disposed\<rparr>)"
    using n by (simp add: resol_restit_def sol loop Let_def used keys wr)
  then show ?thesis
    by (simp add: placement_text_def cache_line_def)
qed

lemmas text_eval = placement_text_def used_list_def stored_on_def grouped_def py_range_def
  upto.simps str_int_def str_nat.simps

subsection \<open>Claim C8: the extracted placement and its text\<close>

text \<open>
  C8. After a solve with at least one solution, when every placement variable whose
  value is above \<open>0.5\<close> is on a cache of \<^verbatim>\<open>range(C)\<close>, \<^verbatim>\<open>resol_restit\<close> returns
  and writes to the output path the text of the specification: a variable is stored exactly
  when its value is above \<open>0.5\<close>, the stored videos are grouped by cache and sorted in
  ascending order, the caches without video are dropped, the first line is the number of
  used caches, and one line follows for each used cache, in ascending order of the cache
  ids, with the cache id and then its video ids.
\<close>

theorem extraction_output:
  assumes "optimize model = Solved n xval" and "0 < n"
    and "\<forall>item \<in> set x. xval (snd item) > 1 / 2 \<longrightarrow> 0 \<le> snd (fst item) \<and> snd (fst item) < C"
  shows "resol_restit optimize model x C output_path w =
       (Inr (), w\<lparr>written := written w @ [(output_path, Text (placement_text C x xval))],
                  model_st := Disposed, env_st := Disposed\<rparr>) \<and>
     sorted (used_list C x xval) \<and> distinct (used_list C x xval) \<and>
     set (used_list C x xval) = {c. 0 \<le> c \<and> c < C \<and> stored_on x xval c \<noteq> []} \<and>
     (\<forall>c. sorted (stored_on x xval c) \<and>
          set (stored_on x xval c) = {vid. \<exists>i. ((vid, c), i) \<in> set x \<and> xval i > 1 / 2})"
proof -
  from assms(3) have "\<forall>item \<in> set x.
      xval (snd item) > 1 / 2 \<longrightarrow> snd (fst item) \<in> set (py_range C)"
    by (simp add: set_py_range)
  with assms(1,2) have "resol_restit optimize model x C output_path w =
       (Inr (), w\<lparr>written := written w @ [(output_path, Text (placement_text C x xval))],
                  model_st := Disposed, env_st := Disposed\<rparr>)"
    by (intro resol_restit_writes) simp_all
  moreover have "distinct (used_list C x xval)"
    by (simp add: used_list_def distinct_py_range)
  moreover have "set (used_list C x xval) = {c. 0 \<le> c \<and> c < C \<and> stored_on x xval c \<noteq> []}"
    by (auto simp: used_list_def set_py_range)
  moreover have "set (stored_on x xval c) = {vid. \<exists>i. ((vid, c), i) \<in> set x \<and> xval i > 1 / 2}"
    for c
    by (force simp: stored_on_def grouped_def)
  moreover have "sorted (stored_on x xval c)" for c
    by (simp add: stored_on_def)
  ultimately show ?thesis
    using sorted_used_list [of C x xval] by simp
qed

theorem extraction_output_witness:
  "resol_restit (\<lambda>m. Solved 1 (\<lambda>i. if i = 2 then 0 else 1)) new_model
      [((1, 0), 0), ((0, 0), 1), ((0, 1), 2)] 2 ''videos.out'' (world0 Map.empty) =
     (Inr (), (world0 Map.empty)
        \<lparr>written := [(''videos.out'', Text ''1\<newline>0 0 1\<newline>'')],
         model_st := Disposed, env_st := Disposed\<rparr>)"
proof -
  have "\<forall>item \<in> set [((1, 0), 0), ((0, 0), 1), ((0 :: int, 1 :: int), 2 :: nat)].
      (if snd item = 2 then 0 else (1 :: rat)) > 1 / 2 \<longrightarrow>
      0 \<le> snd (fst item) \<and> snd (fst item) < 2"
    by simp
  from extraction_output [of "\<lambda>m. Solved 1 (\<lambda>i. if i = 2 then 0 else 1)" new_model 1
      "\<lambda>i. if i = 2 then 0 else 1" "[((1, 0), 0), ((0, 0), 1), ((0, 1), 2)]" 2
      "''videos.out''" "world0 Map.empty", OF refl _ this]
  show ?thesis
    by (simp add: text_eval world0_def)
qed

subsection \<open>Claim C9: no solution, no output\<close>

text \<open>
  C9. When the solve ends with no solution, \<^verbatim>\<open>resol_restit\<close> returns normally, no
  exception is raised, nothing is written (the list of written files is unchanged), and
  the model and the environment are disposed.
\<close>

theorem no_solution_no_output:
  assumes "optimize model = Solved 0 xval"
  shows "resol_restit optimize model x C output_path w =
       (Inr (), w\<lparr>model_st := Disposed, env_st := Disposed\<rparr>) \<and>
     written (snd (resol_restit optimize model x C output_path w)) = written w"
  using assms by (simp add: resol_restit_def)

theorem no_solution_no_output_witness:
  "resol_restit (\<lambda>m. Solved 0 (\<lambda>i. 0)) new_model [((0, 0), 0)] 1 ''videos.out''
      (world0 Map.empty) =
     (Inr (), (world0 Map.empty)\<lparr>model_st := Disposed, env_st := Disposed\<rparr>) \<and>
   written (snd (resol_restit (\<lambda>m. Solved 0 (\<lambda>i. 0)) new_model [((0, 0), 0)] 1 ''videos.out''
      (world0 Map.empty))) = []"
  using no_solution_no_output [of "\<lambda>m. Solved 0 (\<lambda>i. 0)" new_model "\<lambda>i. 0" "[((0, 0), 0)]" 1
      "''videos.out''" "world0 Map.empty"]
  by (simp add: world0_def)

subsection \<open>Claim C1: the extractor does not check capacities\<close>

text \<open>
  C1 (as amended). \<^verbatim>\<open>resol_restit\<close> receives neither the sizes of the videos nor the
  capacity \<open>X\<close>, and compares no sum of sizes with \<open>X\<close>: for every model that
  \<^verbatim>\<open>build_model\<close> builds and every solve with at least one solution, whatever the solved
  values are, it raises nothing and writes the placement that the values encode. The
  capacity bound is only in the capacity constraints given to the solver.
\<close>

theorem no_capacity_recheck:
  assumes "build_loops lib C X video_sizes endpoints requests = Inr b"
    and "optimize (b_model b) = Solved n xval" and "0 < n"
  shows "resol_restit optimize (b_model b) (b_x b) C output_path w =
     (Inr (), w\<lparr>written := written w @ [(output_path, Text (placement_text C (b_x b) xval))],
                model_st := Disposed, env_st := Disposed\<rparr>)"
proof -
  from build_loops_result [OF assms(1)] have "binv C video_sizes b" by simp
  then have "\<forall>item \<in> set (b_x b).
      xval (snd item) > 1 / 2 \<longrightarrow> snd (fst item) \<in> set (py_range C)"
    by (auto simp: binv_def list_all_iff)
  with assms(2,3) show ?thesis
    by (intro resol_restit_writes) simp_all
qed

theorem no_capacity_recheck_witness:
  "\<exists>b. build_loops quiet 2 10 demo_sizes demo_endpoints demo_requests = Inr b \<and>
     resol_restit (\<lambda>m. Solved 1 (\<lambda>i. 1)) (b_model b) (b_x b) 2 ''videos.out''
        (world0 Map.empty) =
       (Inr (), (world0 Map.empty)
          \<lparr>written := [(''videos.out'', Text ''1\<newline>0 0 1\<newline>'')],
           model_st := Disposed, env_st := Disposed\<rparr>) \<and>
     sum_list demo_sizes > 10"
proof -
  from demo_builds obtain b where
    b: "build_loops quiet 2 10 demo_sizes demo_endpoints demo_requests = Inr b" ..
  then have x: "b_x b = [((0, 0), 0), ((1, 0), 2)]"
    by (auto simp: build_eval)
  from no_capacity_recheck [OF b, of "\<lambda>m. Solved 1 (\<lambda>i. 1)" 1 "\<lambda>i. 1" "''videos.out''"
      "world0 Map.empty"] x
  have "resol_restit (\<lambda>m. Solved 1 (\<lambda>i. 1)) (b_model b) (b_x b) 2 ''videos.out''
        (world0 Map.empty) =
       (Inr (), (world0 Map.empty)
          \<lparr>written := [(''videos.out'', Text ''1\<newline>0 0 1\<newline>'')],
           model_st := Disposed, env_st := Disposed\<rparr>)"
    by (simp add: text_eval world0_def)
  with b show ?thesis by (auto simp: demo_sizes_def)
qed

text \<open>
  C1 as stated fails: two videos of sizes 6 and 7 and one cache of capacity 10; no call
  into the library raises, and the solver returns the value 1 for every variable, so both
  videos are on cache 0 and their sizes add up to 13. The pipeline returns 0 and the
  placement is in the output file.
\<close>

theorem capacity_violation_written_counterexample:
  "fst (main quiet (\<lambda>m. Solved 1 (\<lambda>i. 1)) [''videos.py'', ''big.in'']
     (world0 [''big.in'' \<mapsto>
        [[IntTok 2, IntTok 1, IntTok 2, IntTok 1, IntTok 10], [IntTok 6, IntTok 7],
         [IntTok 100, IntTok 1], [IntTok 0, IntTok 10],
         [IntTok 0, IntTok 0, IntTok 3], [IntTok 1, IntTok 0, IntTok 2]]])) = Inr 0 \<and>
   map_of (written (snd (main quiet (\<lambda>m. Solved 1 (\<lambda>i. 1)) [''videos.py'', ''big.in'']
     (world0 [''big.in'' \<mapsto>
        [[IntTok 2, IntTok 1, IntTok 2, IntTok 1, IntTok 10], [IntTok 6, IntTok 7],
         [IntTok 100, IntTok 1], [IntTok 0, IntTok 10],
         [IntTok 0, IntTok 0, IntTok 3], [IntTok 1, IntTok 0, IntTok 2]]])))) ''videos.out'' =
     Some (Text ''1\<newline>0 0 1\<newline>'') \<and>
   (6 :: int) + 7 > 10"
  by (simp add: main_def world0_def lire_instance_def read_endpoint_def read_cache_def
      read_request_def build_model_def set_params_def build_eval resol_restit_def
      extract_body_def used_caches_of_def cache_line_def str_int_def str_nat.simps)

subsection \<open>Claim C2: when the solver resources are released\<close>

lemma extract_body_Inl: "extract_body xval item cc = Inl e \<Longrightarrow> e = KeyError"
  by (auto simp: extract_body_def split: prod.splits if_splits option.splits)

lemma write_caches_error: "write_caches used keys out = (Some e, out') \<Longrightarrow> e = KeyError"
  by (induction keys arbitrary: out) (auto split: option.splits)

text \<open>
  \<^const>\<open>resol_restit\<close> disposes both resources whenever it returns, and touches neither
  when it raises.
\<close>

lemma resol_restit_world:
  assumes "resol_restit optimize model x C output_path w = (res, w')"
  shows "(res = Inr () \<longrightarrow> env_st w' = Disposed \<and> model_st w' = Disposed) \<and>
     (\<forall>e. res = Inl e \<longrightarrow>
        (e = GurobiError \<or> e = KeyError) \<and> env_st w' = env_st w \<and> model_st w' = model_st w)"
proof (cases "optimize model")
  case OptimizeError
  with assms show ?thesis by (auto simp: resol_restit_def)
next
  case (Solved n xval)
  show ?thesis
  proof (cases "n = 0")
    case True
    with assms Solved show ?thesis by (auto simp: resol_restit_def)
  next
    case False
    show ?thesis
    proof (cases "for_loop x (extract_body xval) (map (\<lambda>c. (c, [])) (py_range C))")
      case (Inl e)
      then have "e = KeyError"
        by (rule for_loop_error) (rule extract_body_Inl)
      with assms Solved False Inl show ?thesis by (auto simp: resol_restit_def)
    next
      case (Inr cc)
      obtain err out where wr: "write_caches (used_caches_of cc)
          (sort (map fst (used_caches_of cc)))
          (str_int (int (length (used_caches_of cc))) @ [CHR 0x0A]) = (err, out)"
        by (cases "write_caches (used_caches_of cc) (sort (map fst (used_caches_of cc)))
          (str_int (int (length (used_caches_of cc))) @ [CHR 0x0A])")
      show ?thesis
      proof (cases err)
        case None
        with assms Solved False Inr wr show ?thesis
          by (auto simp: resol_restit_def Let_def)
      next
        case (Some e)
        with wr have "e = KeyError" by (auto dest: write_caches_error)
        with assms Solved False Inr wr Some show ?thesis
          by (auto simp: resol_restit_def Let_def)
      qed
    qed
  qed
qed

text \<open>
  C2 (as amended). On every exit path on which the pipeline returns, the solver resources
  that it acquired are released: when \<^verbatim>\<open>main\<close> was given an input path and returns,
  after a solve with solutions, whose placement is written, or after a solve without
  solution, it returns 0 and the model and the environment are disposed; with a wrong
  number of arguments it returns 1, has acquired nothing and leaves the world as it was.
  The paths on which an exception leaves \<^verbatim>\<open>main\<close> are not part of the statement.
\<close>

theorem resources_on_exit:
  assumes "main lib optimize argv w = (Inr rc, w')"
  shows "(length argv \<noteq> 2 \<longrightarrow> rc = 1 \<and> w' = w) \<and>
     (length argv = 2 \<longrightarrow> rc = 0 \<and> env_st w' = Disposed \<and> model_st w' = Disposed)"
proof (cases "length argv = 2")
  case False
  with assms show ?thesis by (simp add: main_def)
next
  case len: True
  from assms len obtain f where f: "readable w (argv ! 1) = Some f"
    by (cases "readable w (argv ! 1)") (auto simp: main_def Let_def)
  from assms len f obtain inst where inst: "lire_instance f = Inr inst"
    by (cases "lire_instance f") (auto simp: main_def Let_def)
  obtain V E R C X sizes eps rs where i: "inst = (V, E, R, C, X, sizes, eps, rs)"
    by (cases inst) auto
  obtain r1 w1 where bm: "build_model lib V E R C X sizes eps rs w = (r1, w1)"
    by (cases "build_model lib V E R C X sizes eps rs w")
  from assms len f inst i bm obtain model x where r1: "r1 = Inr (model, x)"
    by (cases r1) (auto simp: main_def Let_def)
  obtain r2 w2 where rr: "resol_restit optimize model x C ''videos.out'' w1 = (r2, w2)"
    by (cases "resol_restit optimize model x C ''videos.out'' w1")
  from assms len f inst i bm r1 rr have "r2 = Inr () \<and> rc = 0 \<and> w' = w2"
    by (cases r2) (auto simp: main_def Let_def)
  with resol_restit_world [OF rr] len show ?thesis by simp
qed

lemmas main_eval = main_def world0_def lire_instance_def read_endpoint_def read_cache_def
  read_request_def build_model_def set_params_def resol_restit_def extract_body_def
  used_caches_of_def cache_line_def str_int_def str_nat.simps

theorem resources_on_exit_witness:
  "(\<exists>w'. main quiet (\<lambda>m. Solved 1 (\<lambda>i. 1)) [''videos.py'', ''ex.in'']
       (world0 [''ex.in'' \<mapsto>
          [[IntTok 1, IntTok 1, IntTok 1, IntTok 1, IntTok 10], [IntTok 5],
           [IntTok 100, IntTok 1], [IntTok 0, IntTok 10], [IntTok 0, IntTok 0, IntTok 3]]]) =
       (Inr 0, w') \<and> env_st w' = Disposed \<and> model_st w' = Disposed) \<and>
   (\<exists>w'. main quiet (\<lambda>m. Solved 0 (\<lambda>i. 0)) [''videos.py'', ''ex.in'']
       (world0 [''ex.in'' \<mapsto>
          [[IntTok 1, IntTok 1, IntTok 1, IntTok 1, IntTok 10], [IntTok 5],
           [IntTok 100, IntTok 1], [IntTok 0, IntTok 10], [IntTok 0, IntTok 0, IntTok 3]]]) =
       (Inr 0, w') \<and> env_st w' = Disposed \<and> model_st w' = Disposed) \<and>
   main quiet (\<lambda>m. Solved 1 (\<lambda>i. 1)) [''videos.py''] (world0 Map.empty) =
     (Inr 1, world0 Map.empty)"
proof -
  let ?w = "world0 [''ex.in'' \<mapsto>
          [[IntTok 1, IntTok 1, IntTok 1, IntTok 1, IntTok 10], [IntTok 5],
           [IntTok 100, IntTok 1], [IntTok 0, IntTok 10], [IntTok 0, IntTok 0, IntTok 3]]]"
  have "\<exists>w'. main quiet (\<lambda>m. Solved 1 (\<lambda>i. 1)) [''videos.py'', ''ex.in''] ?w = (Inr 0, w')"
    by (simp add: main_eval build_eval)
  then obtain w1 where
    1: "main quiet (\<lambda>m. Solved 1 (\<lambda>i. 1)) [''videos.py'', ''ex.in''] ?w = (Inr 0, w1)" ..
  have "\<exists>w'. main quiet (\<lambda>m. Solved 0 (\<lambda>i. 0)) [''videos.py'', ''ex.in''] ?w = (Inr 0, w')"
    by (simp add: main_eval build_eval)
  then obtain w2 where
    2: "main quiet (\<lambda>m. Solved 0 (\<lambda>i. 0)) [''videos.py'', ''ex.in''] ?w = (Inr 0, w2)" ..
  have 3: "main quiet (\<lambda>m. Solved 1 (\<lambda>i. 1)) [''videos.py''] (world0 Map.empty) =
     (Inr 1, world0 Map.empty)"
    by (simp add: main_def)
  from resources_on_exit [OF 1] have "env_st w1 = Disposed \<and> model_st w1 = Disposed" by simp
  moreover from resources_on_exit [OF 2] have "env_st w2 = Disposed \<and> model_st w2 = Disposed"
    by simp
  ultimately show ?thesis using 1 2 3 by blast
qed

text \<open>
  C2 as stated fails on both failure paths that it names. In the first file the endpoint is
  connected to cache 3 while there is one cache: the builder raises \<^verbatim>\<open>KeyError\<close>
  after the environment and the model were created, and the exception leaves
  \<^verbatim>\<open>main\<close> with both still allocated. On the second file the model is built and
  \<^verbatim>\<open>model.optimize()\<close> raises: \<^verbatim>\<open>GurobiError\<close> leaves \<^verbatim>\<open>main\<close> with both
  still allocated.
\<close>

theorem failure_paths_leak_counterexample:
  "main quiet (\<lambda>m. Solved 1 (\<lambda>i. 1)) [''videos.py'', ''bad.in'']
     (world0 [''bad.in'' \<mapsto>
        [[IntTok 1, IntTok 1, IntTok 1, IntTok 1, IntTok 10], [IntTok 5],
         [IntTok 100, IntTok 1], [IntTok 3, IntTok 10], [IntTok 0, IntTok 0, IntTok 3]]]) =
   (Inl KeyError,
    (world0 [''bad.in'' \<mapsto>
        [[IntTok 1, IntTok 1, IntTok 1, IntTok 1, IntTok 10], [IntTok 5],
         [IntTok 100, IntTok 1], [IntTok 3, IntTok 10], [IntTok 0, IntTok 0, IntTok 3]]])
      \<lparr>env_st := Live, model_st := Live\<rparr>) \<and>
   fst (main quiet (\<lambda>m. OptimizeError) [''videos.py'', ''ex.in'']
     (world0 [''ex.in'' \<mapsto>
        [[IntTok 1, IntTok 1, IntTok 1, IntTok 1, IntTok 10], [IntTok 5],
         [IntTok 100, IntTok 1], [IntTok 0, IntTok 10], [IntTok 0, IntTok 0, IntTok 3]]])) =
     Inl GurobiError \<and>
   env_st (snd (main quiet (\<lambda>m. OptimizeError) [''videos.py'', ''ex.in'']
     (world0 [''ex.in'' \<mapsto>
        [[IntTok 1, IntTok 1, IntTok 1, IntTok 1, IntTok 10], [IntTok 5],
         [IntTok 100, IntTok 1], [IntTok 0, IntTok 10], [IntTok 0, IntTok 0, IntTok 3]]]))) =
     Live \<and>
   model_st (snd (main quiet (\<lambda>m. OptimizeError) [''videos.py'', ''ex.in'']
     (world0 [''ex.in'' \<mapsto>
        [[IntTok 1, IntTok 1, IntTok 1, IntTok 1, IntTok 10], [IntTok 5],
         [IntTok 100, IntTok 1], [IntTok 0, IntTok 10], [IntTok 0, IntTok 0, IntTok 3]]]))) =
     Live"
  by (simp add: main_eval build_eval)

end
